theory Spec2Isabelle
  imports Main
begin

section \<open>Host primitives\<close>

text \<open>
  The extension runs on the JavaScript runtime and the editor host.  The few
  built-ins the bookmark logic relies on are modelled here: strings are lists of
  code units, numbers are integers, an \<open>Array\<close> is a list, a \<open>Map\<close> is an association
  list in insertion order, and an object is a reference into an object store.
\<close>

type_synonym ref = nat

datatype error = TypeError | IllegalLine | SyntaxError

text \<open>
  An exception concatenated to a string: the name of the error; the wording that the engine
  puts after the name is left out.
\<close>

fun errorText :: "error \<Rightarrow> string" where
  "errorText TypeError = ''TypeError''"
| "errorText IllegalLine = ''Error''"
| "errorText SyntaxError = ''SyntaxError''"

subsection \<open>Strings\<close>

text \<open>The white space that \<open>String.prototype.trim\<close> removes, among 8-bit code units.\<close>

definition isWhitespace :: "char \<Rightarrow> bool" where
  "isWhitespace c \<longleftrightarrow>
     c \<in> set [CHR 0x09, CHR 0x0A, CHR 0x0B, CHR 0x0C, CHR 0x0D, CHR 0x20, CHR 0xA0]"

definition trim :: "string \<Rightarrow> string" where
  "trim s = rev (dropWhile isWhitespace (rev (dropWhile isWhitespace s)))"

text \<open>
  \<open>String.prototype.localeCompare\<close> is a built-in of the host: it compares two strings by
  the collation of the host's locale, which is no part of the sources and is not the order
  of the code units (in the usual locales \<open>a\<close> sorts before \<open>B\<close>).  The model does not fix
  it: the comparison is a function that the state carries, in its field \<open>localeCompare\<close>,
  and that the static comparators take as their first argument.  Nothing is assumed of
  it; its result is negative, zero or positive.
\<close>

type_synonym collation = "string \<Rightarrow> string \<Rightarrow> int"

definition startsWith :: "string \<Rightarrow> string \<Rightarrow> bool" where
  "startsWith s p \<longleftrightarrow> take (length p) s = p"

subsection \<open>Arrays\<close>

text \<open>\<open>Array.prototype.sort\<close> with a comparator: a stable sort.\<close>

fun insort_cmp :: "('a \<Rightarrow> 'a \<Rightarrow> int) \<Rightarrow> 'a \<Rightarrow> 'a list \<Rightarrow> 'a list" where
  "insort_cmp cmp x [] = [x]"
| "insort_cmp cmp x (y # ys) =
     (if cmp x y \<le> 0 then x # y # ys else y # insort_cmp cmp x ys)"

definition sort_cmp :: "('a \<Rightarrow> 'a \<Rightarrow> int) \<Rightarrow> 'a list \<Rightarrow> 'a list" where
  "sort_cmp cmp xs = foldr (insort_cmp cmp) xs []"

definition MAX_SAFE_INTEGER :: int where
  "MAX_SAFE_INTEGER = 9007199254740991"

subsection \<open>Maps in insertion order\<close>

fun map_has :: "('k \<times> 'v) list \<Rightarrow> 'k \<Rightarrow> bool" where
  "map_has [] k = False"
| "map_has ((k', v) # m) k = (k' = k \<or> map_has m k)"

fun map_set :: "('k \<times> 'v) list \<Rightarrow> 'k \<Rightarrow> 'v \<Rightarrow> ('k \<times> 'v) list" where
  "map_set [] k v = [(k, v)]"
| "map_set ((k', v') # m) k v = (if k' = k then (k, v) # m else (k', v') # map_set m k v)"

fun map_get :: "('k \<times> 'v) list \<Rightarrow> 'k \<Rightarrow> 'v option" where
  "map_get [] k = None"
| "map_get ((k', v) # m) k = (if k' = k then Some v else map_get m k)"

subsection \<open>Callable and other values\<close>

text \<open>
  A value passed where the callee expects a function: calling anything but a function
  throws a \<open>TypeError\<close>.
\<close>

datatype 'f js_value = JsFunction 'f | JsObject | JsUndefined

definition js_call :: "('a \<Rightarrow> 'b) js_value \<Rightarrow> 'a \<Rightarrow> error + 'b" where
  "js_call f x = (case f of JsFunction g \<Rightarrow> Inr (g x) | JsObject \<Rightarrow> Inl TypeError
                  | JsUndefined \<Rightarrow> Inl TypeError)"

text \<open>A loop over an array whose body may throw: the first exception ends the loop.\<close>

fun forEach :: "('a \<Rightarrow> 's \<Rightarrow> error option \<times> 's) \<Rightarrow> 'a list \<Rightarrow> 's \<Rightarrow> error option \<times> 's" where
  "forEach f [] s = (None, s)"
| "forEach f (x # xs) s =
     (case f x s of (None, s') \<Rightarrow> forEach f xs s' | (Some e, s') \<Rightarrow> (Some e, s'))"

subsection \<open>Paths\<close>

text \<open>
  The POSIX flavour of the \<open>path\<close> module, on the arguments the bookmark code passes:
  \<open>path.relative\<close> is only called with two absolute paths, so the working directory is
  never consulted.
\<close>

fun splitOn :: "char \<Rightarrow> string \<Rightarrow> string list" where
  "splitOn c [] = [[]]"
| "splitOn c (x # xs) =
     (if x = c then [] # splitOn c xs
      else (case splitOn c xs of [] \<Rightarrow> [[x]] | s # ss \<Rightarrow> (x # s) # ss))"

fun joinWith :: "string \<Rightarrow> string list \<Rightarrow> string" where
  "joinWith sep [] = []"
| "joinWith sep [s] = s"
| "joinWith sep (s # t # ss) = s @ sep @ joinWith sep (t # ss)"

fun normalizeSegs :: "bool \<Rightarrow> string list \<Rightarrow> string list \<Rightarrow> string list" where
  "normalizeSegs allowAboveRoot acc [] = rev acc"
| "normalizeSegs allowAboveRoot acc (s # ss) =
     (if s = [] \<or> s = ''.'' then normalizeSegs allowAboveRoot acc ss
      else if s = ''..'' then
        (case acc of
           [] \<Rightarrow> normalizeSegs allowAboveRoot (if allowAboveRoot then [''..''] else []) ss
         | a # as \<Rightarrow>
             (if a \<noteq> ''..'' then normalizeSegs allowAboveRoot as ss
              else normalizeSegs allowAboveRoot (if allowAboveRoot then ''..'' # acc else acc) ss))
      else normalizeSegs allowAboveRoot (s # acc) ss)"

definition path_isAbsolute :: "string \<Rightarrow> bool" where
  "path_isAbsolute p \<longleftrightarrow> (case p of [] \<Rightarrow> False | c # _ \<Rightarrow> c = CHR ''/'')"

definition path_normalize :: "string \<Rightarrow> string" where
  "path_normalize p =
     (if p = [] then ''.''
      else
        (let isAbs = path_isAbsolute p;
             trailing = (last p = CHR ''/'');
             body = joinWith ''/'' (normalizeSegs (\<not> isAbs) [] (splitOn CHR ''/'' p));
             body1 = (if body = [] \<and> \<not> isAbs then ''.'' else body);
             body2 = (if body1 \<noteq> [] \<and> trailing then body1 @ ''/'' else body1)
         in if isAbs then ''/'' @ body2 else body2))"

definition path_join :: "string \<Rightarrow> string \<Rightarrow> string" where
  "path_join a b =
     (if a = [] \<and> b = [] then ''.''
      else if a = [] then path_normalize b
      else if b = [] then path_normalize a
      else path_normalize (a @ ''/'' @ b))"

fun commonPrefixLength :: "'a list \<Rightarrow> 'a list \<Rightarrow> nat" where
  "commonPrefixLength (x # xs) (y # ys) = (if x = y then Suc (commonPrefixLength xs ys) else 0)"
| "commonPrefixLength _ _ = 0"

definition path_relative :: "string \<Rightarrow> string \<Rightarrow> string" where
  "path_relative from to =
     (let f = normalizeSegs False [] (splitOn CHR ''/'' from);
          t = normalizeSegs False [] (splitOn CHR ''/'' to);
          n = commonPrefixLength f t
      in if f = t then [] else joinWith ''/'' (replicate (length f - n) ''..'' @ drop n t))"

section \<open>Data model\<close>

subsection \<open>The persisted form\<close>

text \<open>\<open>serializable_bookmark.ts\<close>, class \<open>SerializableBookmark\<close>.\<close>

record SerializableBookmark =
  fsPath :: string
  lineNumber :: int
  characterNumber :: int
  label :: "string option"
  lineText :: string
  isLineNumberChanged :: bool
  groupName :: string

definition new_SerializableBookmark ::
    "string \<Rightarrow> int \<Rightarrow> int \<Rightarrow> string option \<Rightarrow> string \<Rightarrow> string \<Rightarrow> SerializableBookmark" where
  "new_SerializableBookmark p l c lbl txt g =
     \<lparr>fsPath = p, lineNumber = l, characterNumber = c, label = lbl, lineText = txt,
      isLineNumberChanged = False, groupName = g\<rparr>"

text \<open>
  Modelled from the spec: \<open>serializable_group.ts\<close> is not among the sources.  The
  persisted group is the record \<open>{name, color, shape, iconText}\<close> of the specification.
\<close>

record SerializableGroup =
  name :: string
  color :: string
  shape :: string
  iconText :: string

text \<open>
  The object written to and parsed from the storage artifact; a key may be absent.
  \<open>JSON.stringify\<close> followed by \<open>JSON.parse\<close> gives the object back, a label that is
  \<open>undefined\<close> being dropped and read back as \<open>undefined\<close>.
\<close>

record SavedObject =
  fileVersion :: "string option"
  savedGroups :: "SerializableGroup list option"
  savedBookmarks :: "SerializableBookmark list option"
  savedActiveGroup :: "string option"
  savedHideInactiveGroups :: "bool option"
  savedHideAll :: "bool option"

datatype FileContent = Json SavedObject | NotJson

text \<open>
  The part of the file system that \<open>saveState\<close> and \<open>loadState\<close> touch: the artifact
  (absent, or its content), its directory, and how many other entries the directory has.
\<close>

record FileSystem =
  artifact :: "FileContent option"
  dirExists :: bool
  dirOtherEntries :: nat

text \<open>The five keys of \<open>ctx.workspaceState\<close>.\<close>

record Memento =
  mementoBookmarks :: "SerializableBookmark list option"
  mementoGroups :: "SerializableGroup list option"
  mementoActiveGroup :: "string option"
  mementoHideInactiveGroups :: "bool option"
  mementoHideAll :: "bool option"

subsection \<open>Groups and bookmarks\<close>

text \<open>
  Modelled from the spec: \<open>group.ts\<close> is not among the sources.  A group carries the
  attributes the specification lists: name, colour, shape, icon text and the two flags;
  its constructor stores the four attributes, \<open>getColor\<close> reads the colour,
  \<open>sortByName\<close> compares names, and the conversions to and from the persisted form copy
  the four attributes.
\<close>

record Group =
  name :: string
  color :: string
  shape :: string
  iconText :: string
  isActive :: bool
  isVisible :: bool

definition new_Group :: "string \<Rightarrow> string \<Rightarrow> string \<Rightarrow> string \<Rightarrow> Group" where
  "new_Group n c s t =
     \<lparr>name = n, color = c, shape = s, iconText = t, isActive = False, isVisible = False\<rparr>"

definition getColor :: "Group \<Rightarrow> string" where
  "getColor g = color g"

definition sortByName :: "collation \<Rightarrow> Group \<Rightarrow> Group \<Rightarrow> int" where
  "sortByName localeCompare a b = localeCompare (name a) (name b)"

definition fromGroup :: "Group \<Rightarrow> SerializableGroup" where
  "fromGroup g =
     \<lparr>SerializableGroup.name = name g, color = color g, shape = shape g, iconText = iconText g\<rparr>"

definition fromSerializableGroup :: "SerializableGroup \<Rightarrow> Group" where
  "fromSerializableGroup sg =
     new_Group (SerializableGroup.name sg) (SerializableGroup.color sg)
       (SerializableGroup.shape sg) (SerializableGroup.iconText sg)"

text \<open>\<open>bookmark.ts\<close>, class \<open>Bookmark\<close>; the group is a reference to a group object.\<close>

record Bookmark =
  fsPath :: string
  lineNumber :: int
  characterNumber :: int
  label :: "string option"
  lineText :: string
  failedJump :: bool
  isLineNumberChanged :: bool
  group :: ref

text \<open>The constructor of \<open>Bookmark\<close>.\<close>

definition new_Bookmark ::
    "string \<Rightarrow> int \<Rightarrow> int \<Rightarrow> string option \<Rightarrow> string \<Rightarrow> ref \<Rightarrow> Bookmark" where
  "new_Bookmark p l c lbl txt g =
     \<lparr>fsPath = p, lineNumber = l, characterNumber = c, label = lbl, lineText = txt,
      failedJump = False, isLineNumberChanged = False, group = g\<rparr>"

text \<open>\<open>Bookmark.sortByLocation\<close>: the first non-zero of the three differences.\<close>

definition sortByLocation :: "collation \<Rightarrow> Bookmark \<Rightarrow> Bookmark \<Rightarrow> int" where
  "sortByLocation localeCompare a b =
     (if localeCompare (fsPath a) (fsPath b) \<noteq> 0 then localeCompare (fsPath a) (fsPath b)
      else if lineNumber a - lineNumber b \<noteq> 0 then lineNumber a - lineNumber b
      else characterNumber a - characterNumber b)"

text \<open>
  \<open>SerializableBookmark.fromBookmark\<close>: the path is made relative when it starts with
  the workspace folder.  The group name is read through the bookmark's group reference.
\<close>

definition fromBookmark ::
    "string option \<Rightarrow> (ref \<Rightarrow> Group) \<Rightarrow> Bookmark \<Rightarrow> SerializableBookmark" where
  "fromBookmark workspaceFolder groupOf bookmark =
     (let relativePath =
            (case workspaceFolder of
               None \<Rightarrow> fsPath bookmark
             | Some folder \<Rightarrow>
                 (if folder \<noteq> [] \<and> startsWith (fsPath bookmark) folder
                  then path_relative folder (fsPath bookmark) else fsPath bookmark))
      in new_SerializableBookmark relativePath (lineNumber bookmark) (characterNumber bookmark)
           (label bookmark) (lineText bookmark) (name (groupOf (group bookmark))))"

text \<open>
  \<open>Bookmark.fromSerializableBookMark (serialized, groupGetter, decorationFactory)\<close>:
  the path is made absolute again, and the group is whatever calling \<open>groupGetter\<close> on
  the group name returns.
\<close>

definition fromSerializableBookMark ::
    "string option \<Rightarrow> SerializableBookmark \<Rightarrow> (string \<Rightarrow> ref) js_value \<Rightarrow>
     (string \<Rightarrow> ref) js_value \<Rightarrow> error + Bookmark" where
  "fromSerializableBookMark workspaceFolder serialized groupGetter decorationFactory =
     (let absolutePath =
            (case workspaceFolder of
               None \<Rightarrow> SerializableBookmark.fsPath serialized
             | Some folder \<Rightarrow>
                 (if folder \<noteq> [] \<and> \<not> path_isAbsolute (SerializableBookmark.fsPath serialized)
                  then path_join folder (SerializableBookmark.fsPath serialized)
                  else SerializableBookmark.fsPath serialized))
      in case js_call groupGetter (groupName serialized) of
           Inl e \<Rightarrow> Inl e
         | Inr g \<Rightarrow>
             Inr (new_Bookmark absolutePath (SerializableBookmark.lineNumber serialized)
                    (SerializableBookmark.characterNumber serialized)
                    (SerializableBookmark.label serialized)
                    (SerializableBookmark.lineText serialized) g))"

subsection \<open>Editor values\<close>

record Position =
  line :: int
  character :: int

record Range =
  range_start :: Position
  range_end :: Position

text \<open>A document is its path and its lines; \<open>lineAt\<close> throws outside the document.\<close>

record TextDocument =
  uri_fsPath :: string
  doc_lines :: "string list"

definition lineAt :: "TextDocument \<Rightarrow> int \<Rightarrow> error + string" where
  "lineAt document n =
     (if 0 \<le> n \<and> n < int (length (doc_lines document))
      then Inr (doc_lines document ! nat n) else Inl IllegalLine)"

text \<open>
  \<open>document.getText (new Range (n, 0, n, c))\<close>: the first \<open>c\<close> code units of line \<open>n\<close>; a
  range outside the document is clamped to an empty one.
\<close>

definition getTextBefore :: "TextDocument \<Rightarrow> int \<Rightarrow> int \<Rightarrow> string" where
  "getTextBefore document n c =
     (if 0 \<le> n \<and> n < int (length (doc_lines document))
      then take (nat c) (doc_lines document ! nat n) else [])"

record TextDocumentContentChangeEvent =
  change_range :: Range
  change_text :: string

record TextDocumentChangeEvent =
  document :: TextDocument
  contentChanges :: "TextDocumentContentChangeEvent list"

record TextEditor =
  editor_document :: TextDocument
  selections :: "Position list"

section \<open>The orchestrator state\<close>

text \<open>
  Class \<open>Main\<close> of \<open>main.ts\<close>.  Bookmark and group objects live in two object stores and
  the arrays hold references, so that the cached per-file and per-group lists alias the
  objects of the main array as they do in the source; \<open>nextRef\<close> is the next unused
  reference.  The constants imported from \<open>group.ts\<close> (the default group name and the
  maximal length of a group name), the workspace folder, the workspace memento, the file
  system, the clock, the messages shown to the user and the collation of the host's
  locale are part of the state.
  Decorations, the status bar and the tree view carry no bookmark state and are left out.
\<close>

record Main =
  groups :: "ref list"
  bookmarks :: "ref list"
  activeGroup :: ref
  colors :: "(string \<times> string) list"
  defaultShape :: string
  hideInactiveGroups :: bool
  hideAll :: bool
  tempDocumentBookmarks :: "string \<Rightarrow> ref list option"
  tempGroupBookmarks :: "ref \<Rightarrow> ref list option"
  lastSaveTimestamp :: int
  bookmarkObjects :: "ref \<Rightarrow> Bookmark"
  groupObjects :: "ref \<Rightarrow> Group"
  nextRef :: ref
  defaultGroupName :: string
  maxGroupNameLength :: nat
  workspaceFolder :: "string option"
  workspaceState :: Memento
  storage :: FileSystem
  clock :: int
  messages :: "string list"
  localeCompare :: collation

definition savedBookmarksFileVersionValue :: string where
  "savedBookmarksFileVersionValue = ''1.0''"

definition fallbackColor :: string where
  "fallbackColor = ''00ddddff''"

definition savedBookmarksFilePath :: "Main \<Rightarrow> string option" where
  "savedBookmarksFilePath st =
     (case workspaceFolder st of
        None \<Rightarrow> None
      | Some folder \<Rightarrow>
          Some (map (\<lambda>c. if c = CHR 0x5C then CHR ''/'' else c) folder
                @ ''/.vscode/bookmarks-labeled.json''))"

definition showWarningMessage :: "string \<Rightarrow> Main \<Rightarrow> Main" where
  "showWarningMessage m st = st\<lparr>messages := messages st @ [m]\<rparr>"

definition showErrorMessage :: "string \<Rightarrow> Main \<Rightarrow> Main" where
  "showErrorMessage m st = st\<lparr>messages := messages st @ [m]\<rparr>"

definition showInformationMessage :: "string \<Rightarrow> Main \<Rightarrow> Main" where
  "showInformationMessage m st = st\<lparr>messages := messages st @ [m]\<rparr>"

subsection \<open>Object creation\<close>

text \<open>\<open>new Group (...)\<close> and \<open>new Bookmark (...)\<close>: the object gets a reference never used before.\<close>

definition allocGroup :: "Group \<Rightarrow> Main \<Rightarrow> ref \<times> Main" where
  "allocGroup g st =
     (nextRef st, st\<lparr>groupObjects := (groupObjects st)(nextRef st := g),
                     nextRef := Suc (nextRef st)\<rparr>)"

definition allocBookmark :: "Bookmark \<Rightarrow> Main \<Rightarrow> ref \<times> Main" where
  "allocBookmark b st =
     (nextRef st, st\<lparr>bookmarkObjects := (bookmarkObjects st)(nextRef st := b),
                     nextRef := Suc (nextRef st)\<rparr>)"

definition addNewGroup :: "ref \<Rightarrow> Main \<Rightarrow> Main" where
  "addNewGroup g st = st\<lparr>groups := groups st @ [g]\<rparr>"

definition addNewDecoratedBookmark :: "ref \<Rightarrow> Main \<Rightarrow> Main" where
  "addNewDecoratedBookmark b st = st\<lparr>bookmarks := bookmarks st @ [b]\<rparr>"

definition sortBookmarks :: "Main \<Rightarrow> Main" where
  "sortBookmarks st =
     st\<lparr>bookmarks :=
          sort_cmp (\<lambda>a b. sortByLocation (localeCompare st)
                            (bookmarkObjects st a) (bookmarkObjects st b))
            (bookmarks st)\<rparr>"

definition sortGroups :: "Main \<Rightarrow> Main" where
  "sortGroups st =
     st\<lparr>groups :=
          sort_cmp (\<lambda>a b. sortByName (localeCompare st) (groupObjects st a) (groupObjects st b))
            (groups st)\<rparr>"

subsection \<open>Cached views\<close>

definition getTempDocumentBookmarkList :: "string \<Rightarrow> Main \<Rightarrow> ref list \<times> Main" where
  "getTempDocumentBookmarkList p st =
     (case tempDocumentBookmarks st p of
        Some list \<Rightarrow> (list, st)
      | None \<Rightarrow>
          (let list = filter (\<lambda>b. fsPath (bookmarkObjects st b) = p) (bookmarks st)
           in (list, st\<lparr>tempDocumentBookmarks := (tempDocumentBookmarks st)(p \<mapsto> list)\<rparr>)))"

definition getTempGroupBookmarkList :: "ref \<Rightarrow> Main \<Rightarrow> ref list \<times> Main" where
  "getTempGroupBookmarkList g st =
     (case tempGroupBookmarks st g of
        Some list \<Rightarrow> (list, st)
      | None \<Rightarrow>
          (let list = filter (\<lambda>b. group (bookmarkObjects st b) = g) (bookmarks st)
           in (list, st\<lparr>tempGroupBookmarks := (tempGroupBookmarks st)(g \<mapsto> list)\<rparr>)))"

definition resetTempLists :: "Main \<Rightarrow> Main" where
  "resetTempLists st =
     st\<lparr>tempDocumentBookmarks := (\<lambda>p. None), tempGroupBookmarks := (\<lambda>g. None)\<rparr>"

subsection \<open>Group registry\<close>

text \<open>
  \<open>getLeastUsedColor\<close>: the usage counters are a \<open>Map\<close> keyed by colour value, filled in
  the order of the configured colours, then scanned for the first strict minimum.
\<close>

definition initUsages :: "(string \<times> string) list \<Rightarrow> (string \<times> int) list" where
  "initUsages cs = fold (\<lambda>(index, c) usages. map_set usages c 0) cs []"

definition countUsage :: "string \<Rightarrow> (string \<times> int) list \<Rightarrow> (string \<times> int) list" where
  "countUsage groupColor usages =
     (if map_has usages groupColor
      then map_set usages groupColor
             ((case map_get usages groupColor of Some n \<Rightarrow> n | None \<Rightarrow> 0) + 1)
      else usages)"

definition pickLeastUsed :: "(string \<times> int) list \<Rightarrow> int \<times> string" where
  "pickLeastUsed usages =
     fold (\<lambda>(key, val) (minUsage, leastUsedColor).
             if minUsage > val then (val, key) else (minUsage, leastUsedColor))
       usages (MAX_SAFE_INTEGER, [])"

definition getLeastUsedColor :: "Main \<Rightarrow> string" where
  "getLeastUsedColor st =
     (if length (colors st) < 1 then fallbackColor
      else
        (let usages0 = initUsages (colors st);
             usages = fold (\<lambda>g u. countUsage (getColor (groupObjects st g)) u) (groups st) usages0
         in snd (pickLeastUsed usages)))"

text \<open>
  The words of the colour contract: how many of the existing groups use a colour.
\<close>

definition usageCount :: "Main \<Rightarrow> string \<Rightarrow> int" where
  "usageCount st c = int (length (filter (\<lambda>g. getColor (groupObjects st g) = c) (groups st)))"

definition ensureGroup :: "string \<Rightarrow> Main \<Rightarrow> ref \<times> Main" where
  "ensureGroup n st =
     (case find (\<lambda>g. name (groupObjects st g) = n) (groups st) of
        Some g \<Rightarrow> (g, st)
      | None \<Rightarrow>
          (let (g, st1) = allocGroup (new_Group n (getLeastUsedColor st) (defaultShape st) n) st
           in (g, sortGroups (addNewGroup g st1))))"

definition setIsActive :: "ref \<Rightarrow> bool \<Rightarrow> Main \<Rightarrow> Main" where
  "setIsActive g v st =
     st\<lparr>groupObjects := (groupObjects st)(g := (groupObjects st g)\<lparr>isActive := v\<rparr>)\<rparr>"

definition setIsVisible :: "ref \<Rightarrow> bool \<Rightarrow> Main \<Rightarrow> Main" where
  "setIsVisible g v st =
     st\<lparr>groupObjects := (groupObjects st)(g := (groupObjects st g)\<lparr>isVisible := v\<rparr>)\<rparr>"

definition setGroupVisibilities :: "Main \<Rightarrow> Main" where
  "setGroupVisibilities st =
     fold (\<lambda>g s. setIsVisible g
                   (\<not> hideAll s \<and> (\<not> hideInactiveGroups s \<or> isActive (groupObjects s g))) s)
       (groups st) st"

definition activateGroup :: "string \<Rightarrow> Main \<Rightarrow> Main" where
  "activateGroup n st =
     (let (newActiveGroup, st1) = ensureGroup n st
      in if newActiveGroup = activeGroup st1 then st1
         else setGroupVisibilities
                (setIsActive newActiveGroup True
                   ((setIsActive (activeGroup st1) False st1)\<lparr>activeGroup := newActiveGroup\<rparr>)))"

definition setHideInactiveGroups :: "bool \<Rightarrow> Main \<Rightarrow> Main" where
  "setHideInactiveGroups v st =
     (if hideInactiveGroups st = v then st
      else setGroupVisibilities (st\<lparr>hideInactiveGroups := v\<rparr>))"

definition setHideAll :: "bool \<Rightarrow> Main \<Rightarrow> Main" where
  "setHideAll v st =
     (if hideAll st = v then st else setGroupVisibilities (st\<lparr>hideAll := v\<rparr>))"

subsection \<open>Persistence\<close>

definition isEmpty :: "Main \<Rightarrow> bool" where
  "isEmpty st \<longleftrightarrow>
     length (bookmarks st) = 0 \<and>
     (length (groups st) = 1 \<and> name (groupObjects st (groups st ! 0)) = defaultGroupName st)"

definition serializedGroups :: "Main \<Rightarrow> SerializableGroup list" where
  "serializedGroups st = map (\<lambda>g. fromGroup (groupObjects st g)) (groups st)"

definition serializedBookmarks :: "Main \<Rightarrow> SerializableBookmark list" where
  "serializedBookmarks st =
     map (\<lambda>b. fromBookmark (workspaceFolder st) (groupObjects st) (bookmarkObjects st b))
       (bookmarks st)"

definition savedObject :: "Main \<Rightarrow> SavedObject" where
  "savedObject st =
     \<lparr>fileVersion = Some savedBookmarksFileVersionValue,
      savedGroups = Some (serializedGroups st),
      savedBookmarks = Some (serializedBookmarks st),
      savedActiveGroup = Some (name (groupObjects st (activeGroup st))),
      savedHideInactiveGroups = Some (hideInactiveGroups st),
      savedHideAll = Some (hideAll st)\<rparr>"

text \<open>The cleanup branch of \<open>saveState\<close>: the file goes, then its directory if left empty.\<close>

definition deleteArtifact :: "FileSystem \<Rightarrow> FileSystem" where
  "deleteArtifact fs =
     (if artifact fs \<noteq> None then
        (let fs1 = fs\<lparr>artifact := None\<rparr>
         in if dirExists fs1 then
              (if dirOtherEntries fs1 = 0 then fs1\<lparr>dirExists := False\<rparr> else fs1)
            else fs1)
      else fs)"

definition saveState :: "Main \<Rightarrow> bool \<times> Main" where
  "saveState st =
     (case savedBookmarksFilePath st of
        None \<Rightarrow> (False, st)
      | Some path \<Rightarrow>
          (let st1 = st\<lparr>workspaceState :=
                          \<lparr>mementoBookmarks = Some (serializedBookmarks st),
                           mementoGroups = Some (serializedGroups st),
                           mementoActiveGroup = Some (name (groupObjects st (activeGroup st))),
                           mementoHideInactiveGroups = Some (hideInactiveGroups st),
                           mementoHideAll = Some (hideAll st)\<rparr>\<rparr>;
               json = Json (savedObject st1)
           in if isEmpty st1 then (False, st1\<lparr>storage := deleteArtifact (storage st1)\<rparr>)
              else
                (let st2 = st1\<lparr>storage := (storage st1)\<lparr>dirExists := True\<rparr>\<rparr>;
                     st3 = st2\<lparr>lastSaveTimestamp := clock st2\<rparr>
                 in (True, st3\<lparr>storage := (storage st3)\<lparr>artifact := Some json\<rparr>\<rparr>))))"

text \<open>
  The object that \<open>loadState\<close> hands to \<open>Bookmark.fromSerializableBookMark\<close> in second
  place is the decoration factory, an object.
\<close>

definition decorationFactory :: "'f js_value" where
  "decorationFactory = JsObject"

definition restoreGroup :: "SerializableGroup \<Rightarrow> Main \<Rightarrow> Main" where
  "restoreGroup sg st =
     (let (g, st1) = allocGroup (fromSerializableGroup sg) st in addNewGroup g st1)"

definition restoreBookmark :: "SerializableBookmark \<Rightarrow> Main \<Rightarrow> error option \<times> Main" where
  "restoreBookmark sb st =
     (case fromSerializableBookMark (workspaceFolder st) sb decorationFactory JsUndefined of
        Inl e \<Rightarrow> (Some e, st)
      | Inr bookmark \<Rightarrow>
          (let (b, st1) = allocBookmark bookmark st in (None, addNewDecoratedBookmark b st1)))"

text \<open>The second half of \<open>loadState\<close>, from the workspace memento to the arrays.\<close>

definition restoreState :: "Main \<Rightarrow> Main" where
  "restoreState st =
     (let st1 = st\<lparr>hideInactiveGroups :=
                     (case mementoHideInactiveGroups (workspaceState st) of
                        Some v \<Rightarrow> v | None \<Rightarrow> False),
                   hideAll :=
                     (case mementoHideAll (workspaceState st) of Some v \<Rightarrow> v | None \<Rightarrow> False)\<rparr>;
          activeGroupName =
            (case mementoActiveGroup (workspaceState st1) of
               Some n \<Rightarrow> n | None \<Rightarrow> defaultGroupName st1);
          st2 = st1\<lparr>groups := []\<rparr>;
          st3 = (case mementoGroups (workspaceState st2) of
                   None \<Rightarrow> st2
                 | Some sgs \<Rightarrow> sortGroups (fold restoreGroup sgs st2));
          st4 = st3\<lparr>bookmarks := []\<rparr>;
          st5 = (case mementoBookmarks (workspaceState st4) of
                   None \<Rightarrow> st4
                 | Some sbs \<Rightarrow>
                     (case forEach restoreBookmark sbs st4 of
                        (None, s) \<Rightarrow> sortBookmarks s
                      | (Some e, s) \<Rightarrow>
                          showErrorMessage
                            (''LOAD Restoring bookmarks failed ('' @ errorText e @ '')'') s))
      in activateGroup activeGroupName (resetTempLists st5))"

definition loadState :: "Main \<Rightarrow> error + (bool \<times> Main)" where
  "loadState st =
     (case savedBookmarksFilePath st of
        None \<Rightarrow> Inr (False, st)
      | Some path \<Rightarrow>
          (case artifact (storage st) of
             None \<Rightarrow> Inr (False, st)
           | Some NotJson \<Rightarrow> Inl SyntaxError
           | Some (Json obj) \<Rightarrow>
               (if fileVersion obj = Some savedBookmarksFileVersionValue then
                  Inr (True,
                       restoreState
                         (st\<lparr>workspaceState :=
                               \<lparr>mementoBookmarks = savedBookmarks obj,
                                mementoGroups = savedGroups obj,
                                mementoActiveGroup = savedActiveGroup obj,
                                mementoHideInactiveGroups = savedHideInactiveGroups obj,
                                mementoHideAll = savedHideAll obj\<rparr>\<rparr>))
                else
                  Inr (False,
                       showWarningMessage
                         ''LOAD restored labeled bookmarks from file FAILED, version mismatch?''
                         st))))"

text \<open>Saving and then loading what was saved.\<close>

definition saveThenLoad :: "Main \<Rightarrow> error + (bool \<times> Main)" where
  "saveThenLoad st = loadState (snd (saveState st))"

subsection \<open>Group lookup\<close>

definition getGroupByName :: "Main \<Rightarrow> string \<Rightarrow> ref" where
  "getGroupByName st gname =
     (case find (\<lambda>g. name (groupObjects st g) = gname) (groups st) of
        Some g \<Rightarrow> g
      | None \<Rightarrow> activeGroup st)"

subsection \<open>Navigation\<close>

definition allBrokenWarning :: string where
  "allBrokenWarning = ''ERROR: All bookmarks are broken, time for some cleanup''"

text \<open>
  The callback of \<open>find\<close> in \<open>nextBookmark\<close>, run over the list; the counter of broken
  bookmarks is threaded through.
\<close>

fun nextFind ::
    "collation \<Rightarrow> (ref \<Rightarrow> Bookmark) \<Rightarrow> string \<Rightarrow> int \<Rightarrow> ref list \<Rightarrow> nat \<Rightarrow> ref option \<times> nat" where
  "nextFind cmp h p l [] broken = (None, broken)"
| "nextFind cmp h p l (b # bs) broken =
     (if failedJump (h b) then nextFind cmp h p l bs (broken + 1)
      else if cmp (fsPath (h b)) p < 0 then nextFind cmp h p l bs broken
      else if cmp (fsPath (h b)) p > 0 then (Some b, broken)
      else if l < lineNumber (h b) then (Some b, broken)
      else nextFind cmp h p l bs broken)"

definition nextBookmark :: "string \<Rightarrow> int \<Rightarrow> Main \<Rightarrow> ref option \<times> Main" where
  "nextBookmark p l st =
     (let (groupBookmarkList, st1) = getTempGroupBookmarkList (activeGroup st) st;
          (firstCandidate, brokenBookmarkCount) =
             nextFind (localeCompare st1) (bookmarkObjects st1) p l groupBookmarkList 0
      in if firstCandidate = None \<and> length groupBookmarkList > 0 then
           (if length groupBookmarkList > brokenBookmarkCount then
              (case find (\<lambda>b. \<not> failedJump (bookmarkObjects st1 b)) groupBookmarkList of
                 Some b \<Rightarrow> (Some b, st1)
               | None \<Rightarrow> (firstCandidate, showWarningMessage allBrokenWarning st1))
            else (firstCandidate, showWarningMessage allBrokenWarning st1))
         else (firstCandidate, st1))"

text \<open>
  The backward loop of \<open>previousBookmark\<close>, from the last index down to 0; it is run on
  the reversed list.
\<close>

fun previousScan ::
    "collation \<Rightarrow> (ref \<Rightarrow> Bookmark) \<Rightarrow> string \<Rightarrow> int \<Rightarrow> ref list \<Rightarrow> nat \<Rightarrow> ref option \<times> nat" where
  "previousScan cmp h p l [] broken = (None, broken)"
| "previousScan cmp h p l (b # bs) broken =
     (if failedJump (h b) then previousScan cmp h p l bs (broken + 1)
      else if cmp (fsPath (h b)) p > 0 then previousScan cmp h p l bs broken
      else if cmp (fsPath (h b)) p < 0 then (Some b, broken)
      else if lineNumber (h b) < l then (Some b, broken)
      else previousScan cmp h p l bs broken)"

definition previousBookmark :: "string \<Rightarrow> int \<Rightarrow> Main \<Rightarrow> ref option \<times> Main" where
  "previousBookmark p l st =
     (let (groupBookmarkList, st1) = getTempGroupBookmarkList (activeGroup st) st;
          (firstCandidate, brokenBookmarkCount) =
             previousScan (localeCompare st1) (bookmarkObjects st1) p l (rev groupBookmarkList) 0
      in if firstCandidate = None \<and> length groupBookmarkList > 0 then
           (if length groupBookmarkList > brokenBookmarkCount then
              (case find (\<lambda>b. \<not> failedJump (bookmarkObjects st1 b)) (rev groupBookmarkList) of
                 Some b \<Rightarrow> (Some b, st1)
               | None \<Rightarrow> (firstCandidate, showWarningMessage allBrokenWarning st1))
            else (firstCandidate, showWarningMessage allBrokenWarning st1))
         else (firstCandidate, st1))"

text \<open>
  The words of the navigation contract: the list of the active group, and what it means
  for a bookmark to lie strictly after or strictly before the query position, the paths
  being compared by the collation of the host.
\<close>

definition activeGroupBookmarkList :: "Main \<Rightarrow> ref list" where
  "activeGroupBookmarkList st = fst (getTempGroupBookmarkList (activeGroup st) st)"

definition strictlyFollows :: "collation \<Rightarrow> Bookmark \<Rightarrow> string \<Rightarrow> int \<Rightarrow> bool" where
  "strictlyFollows cmp b p l \<longleftrightarrow>
     cmp (fsPath b) p > 0 \<or> (cmp (fsPath b) p = 0 \<and> l < lineNumber b)"

definition strictlyPrecedes :: "collation \<Rightarrow> Bookmark \<Rightarrow> string \<Rightarrow> int \<Rightarrow> bool" where
  "strictlyPrecedes cmp b p l \<longleftrightarrow>
     cmp (fsPath b) p < 0 \<or> (cmp (fsPath b) p = 0 \<and> lineNumber b < l)"

text \<open>
  The tail that \<open>nextBookmark\<close> and \<open>previousBookmark\<close> share, as a function of the list,
  the order of the second scan and the result of the first; it only serves the proofs.
\<close>

definition wrapAround :: "ref list \<Rightarrow> ref list \<Rightarrow> ref option \<times> nat \<Rightarrow> Main \<Rightarrow> ref option \<times> Main" where
  "wrapAround L order scan st1 =
     (if fst scan = None \<and> length L > 0 then
        (if length L > snd scan then
           (case find (\<lambda>b. \<not> failedJump (bookmarkObjects st1 b)) order of
              Some b \<Rightarrow> (Some b, st1)
            | None \<Rightarrow> (fst scan, showWarningMessage allBrokenWarning st1))
         else (fst scan, showWarningMessage allBrokenWarning st1))
      else (fst scan, st1))"

subsection \<open>Nearest bookmark in a file\<close>

text \<open>
  The body of the \<open>forEach\<close> in \<open>getNearestActiveBookmarkInFile\<close>; the accumulator is
  \<open>(nearestBeforeLine, nearestBefore, nearestAfterline, nearestAfter)\<close>.
\<close>

type_synonym nearest_acc = "int \<times> ref option \<times> int \<times> ref option"

definition nearestStep :: "(ref \<Rightarrow> Bookmark) \<Rightarrow> int \<Rightarrow> ref \<Rightarrow> nearest_acc \<Rightarrow> nearest_acc" where
  "nearestStep h lineNo b acc =
     (case acc of (nearestBeforeLine, nearestBefore, nearestAfterline, nearestAfter) \<Rightarrow>
        (let (nbl, nb) =
               (if lineNumber (h b) > nearestBeforeLine \<and> lineNumber (h b) \<le> lineNo
                then (lineNumber (h b), Some b) else (nearestBeforeLine, nearestBefore));
             (nal, na) =
               (if lineNumber (h b) < nearestAfterline \<and> lineNumber (h b) \<ge> lineNo
                then (lineNumber (h b), Some b) else (nearestAfterline, nearestAfter))
         in (nbl, nb, nal, na)))"

definition nearestScan :: "(ref \<Rightarrow> Bookmark) \<Rightarrow> int \<Rightarrow> ref list \<Rightarrow> nearest_acc" where
  "nearestScan h lineNo list = fold (nearestStep h lineNo) list (- 1, None, MAX_SAFE_INTEGER, None)"

definition nearestChoice :: "int \<Rightarrow> nearest_acc \<Rightarrow> ref option" where
  "nearestChoice lineNo acc =
     (case acc of (nearestBeforeLine, nearestBefore, nearestAfterline, nearestAfter) \<Rightarrow>
        (if nearestBefore = None \<and> nearestAfter = None then None
         else if nearestBefore \<noteq> None \<and> nearestAfter \<noteq> None then
           (if lineNo - nearestBeforeLine < nearestAfterline - lineNo then nearestBefore
            else nearestAfter)
         else if nearestBefore \<noteq> None then nearestBefore
         else nearestAfter))"

definition getNearestActiveBookmarkInFile ::
    "TextEditor \<Rightarrow> ref option \<Rightarrow> Main \<Rightarrow> ref option \<times> Main" where
  "getNearestActiveBookmarkInFile textEditor grp st =
     (case selections textEditor of
        [] \<Rightarrow> (None, st)
      | selection # _ \<Rightarrow>
          (let (list, st1) = getTempDocumentBookmarkList (uri_fsPath (editor_document textEditor)) st;
               candidates =
                 filter (\<lambda>b. grp = None \<or> Some (group (bookmarkObjects st1 b)) = grp) list
           in (nearestChoice (line selection)
                 (nearestScan (bookmarkObjects st1) (line selection) candidates), st1)))"

text \<open>The list that the scan of \<open>getNearestActiveBookmarkInFile\<close> runs over.\<close>

definition nearestCandidates :: "TextEditor \<Rightarrow> ref option \<Rightarrow> Main \<Rightarrow> ref list" where
  "nearestCandidates textEditor grp st =
     filter (\<lambda>b. grp = None \<or> Some (group (bookmarkObjects st b)) = grp)
       (fst (getTempDocumentBookmarkList (uri_fsPath (editor_document textEditor)) st))"

subsection \<open>Removing a bookmark\<close>

text \<open>
  \<open>deleteBookmark\<close>: \<open>indexOf\<close> and \<open>splice\<close> remove the first occurrence of the reference;
  the cached lists of the bookmark's file and group are dropped.
\<close>

definition deleteBookmark :: "ref \<Rightarrow> Main \<Rightarrow> Main" where
  "deleteBookmark b st =
     (if b \<notin> set (bookmarks st) then st
      else st\<lparr>bookmarks := remove1 b (bookmarks st),
              tempDocumentBookmarks :=
                (tempDocumentBookmarks st)(fsPath (bookmarkObjects st b) := None),
              tempGroupBookmarks :=
                (tempGroupBookmarks st)(group (bookmarkObjects st b) := None)\<rparr>)"

subsection \<open>Edit reconciliation\<close>

definition getNlCount :: "string \<Rightarrow> int" where
  "getNlCount txt = int (length (filter (\<lambda>c. c = CHR 0x0A) txt))"

definition updateBookmarkLineText :: "TextDocument \<Rightarrow> ref \<Rightarrow> Main \<Rightarrow> error option \<times> Main" where
  "updateBookmarkLineText doc b st =
     (case lineAt doc (lineNumber (bookmarkObjects st b)) of
        Inl e \<Rightarrow> (Some e, st)
      | Inr ln \<Rightarrow>
          (None,
           st\<lparr>bookmarkObjects :=
                (bookmarkObjects st)
                  (b := (bookmarkObjects st b)
                          \<lparr>characterNumber :=
                             min (characterNumber (bookmarkObjects st b)) (int (length ln)),
                           lineText := trim ln\<rparr>)\<rparr>))"

definition updateBookmarkLineTextInRange ::
    "TextDocument \<Rightarrow> ref list \<Rightarrow> int \<Rightarrow> int \<Rightarrow> Main \<Rightarrow> error option \<times> Main" where
  "updateBookmarkLineTextInRange doc list firstLine lastLine st =
     forEach (updateBookmarkLineText doc)
       (filter (\<lambda>b. lineNumber (bookmarkObjects st b) \<ge> firstLine
                    \<and> lineNumber (bookmarkObjects st b) \<le> lastLine) list) st"

definition setLineNumber :: "ref \<Rightarrow> int \<Rightarrow> Main \<Rightarrow> Main" where
  "setLineNumber b n st =
     st\<lparr>bookmarkObjects := (bookmarkObjects st)(b := (bookmarkObjects st b)\<lparr>lineNumber := n\<rparr>)\<rparr>"

text \<open>
  The local values of one change: the line counts, the first-line prefix test and the
  boundaries derived from them.
\<close>

definition oldFirstLine :: "TextDocumentContentChangeEvent \<Rightarrow> int" where
  "oldFirstLine change = line (range_start (change_range change))"

definition oldLastLine :: "TextDocumentContentChangeEvent \<Rightarrow> int" where
  "oldLastLine change = line (range_end (change_range change))"

definition oldLineCount :: "TextDocumentContentChangeEvent \<Rightarrow> int" where
  "oldLineCount change = oldLastLine change - oldFirstLine change"

definition newLineCount :: "TextDocumentContentChangeEvent \<Rightarrow> int" where
  "newLineCount change = getNlCount (change_text change)"

definition newLastLine :: "TextDocumentContentChangeEvent \<Rightarrow> int" where
  "newLastLine change = oldFirstLine change + newLineCount change"

definition isFirstLinePrefixEmpty :: "TextDocument \<Rightarrow> TextDocumentContentChangeEvent \<Rightarrow> bool" where
  "isFirstLinePrefixEmpty doc change \<longleftrightarrow>
     trim (getTextBefore doc (oldFirstLine change)
             (character (range_start (change_range change)))) = []"

definition shiftDownFromLine :: "TextDocument \<Rightarrow> TextDocumentContentChangeEvent \<Rightarrow> int" where
  "shiftDownFromLine doc change =
     (if isFirstLinePrefixEmpty doc change then oldFirstLine change else oldFirstLine change + 1)"

definition isFirstLineBookmarkDeletable ::
    "(ref \<Rightarrow> Bookmark) \<Rightarrow> TextDocument \<Rightarrow> ref list \<Rightarrow> TextDocumentContentChangeEvent \<Rightarrow> bool" where
  "isFirstLineBookmarkDeletable h doc fileBookmarkList change \<longleftrightarrow>
     (if \<not> isFirstLinePrefixEmpty doc change then
        (case find (\<lambda>b. lineNumber (h b) = oldFirstLine change) fileBookmarkList of
           None \<Rightarrow> True
         | Some firstLineBookmark \<Rightarrow> False)
      else True)"

definition deleteFromLine ::
    "(ref \<Rightarrow> Bookmark) \<Rightarrow> TextDocument \<Rightarrow> ref list \<Rightarrow> TextDocumentContentChangeEvent \<Rightarrow> int" where
  "deleteFromLine h doc fileBookmarkList change =
     (if isFirstLineBookmarkDeletable h doc fileBookmarkList change
      then oldFirstLine change else oldFirstLine change + 1)"

text \<open>The body of the loop of the insertion branch; the flag is \<open>bookmarksChanged\<close>.\<close>

definition insertStep ::
    "TextDocument \<Rightarrow> int \<Rightarrow> int \<Rightarrow> int \<Rightarrow> int \<Rightarrow> ref \<Rightarrow> bool \<times> Main \<Rightarrow> error option \<times> bool \<times> Main" where
  "insertStep doc shiftDownFrom shiftDownBy firstLine lastLine b s =
     (let (changed1, st1) =
            (if lineNumber (bookmarkObjects (snd s) b) \<ge> shiftDownFrom
             then (True, setLineNumber b (lineNumber (bookmarkObjects (snd s) b) + shiftDownBy) (snd s))
             else s)
      in if lineNumber (bookmarkObjects st1 b) \<ge> firstLine
            \<and> lineNumber (bookmarkObjects st1 b) \<le> lastLine
         then (case updateBookmarkLineText doc b st1 of (e, st2) \<Rightarrow> (e, changed1, st2))
         else (None, changed1, st1))"

text \<open>The body of the loop of the deletion branch.\<close>

definition deleteStep ::
    "TextDocument \<Rightarrow> int \<Rightarrow> int \<Rightarrow> int \<Rightarrow> int \<Rightarrow> int \<Rightarrow> ref \<Rightarrow> bool \<times> Main \<Rightarrow>
     error option \<times> bool \<times> Main" where
  "deleteStep doc firstLine deleteFrom shiftFrom shiftUpBy lastLine b s =
     (if lineNumber (bookmarkObjects (snd s) b) < firstLine then (None, s)
      else if lineNumber (bookmarkObjects (snd s) b) \<ge> deleteFrom
              \<and> lineNumber (bookmarkObjects (snd s) b) < shiftFrom
      then (None, True, deleteBookmark b (snd s))
      else
        (let (changed1, st1) =
               (if lineNumber (bookmarkObjects (snd s) b) \<ge> shiftFrom
                then (True, setLineNumber b (lineNumber (bookmarkObjects (snd s) b) - shiftUpBy) (snd s))
                else s)
         in if lineNumber (bookmarkObjects st1 b) \<ge> firstLine
               \<and> lineNumber (bookmarkObjects st1 b) \<le> lastLine
            then (case updateBookmarkLineText doc b st1 of (e, st2) \<Rightarrow> (e, changed1, st2))
            else (None, changed1, st1)))"

text \<open>One entry of \<open>event.contentChanges\<close>: the three branches of the loop body.\<close>

definition processChange ::
    "TextDocument \<Rightarrow> ref list \<Rightarrow> TextDocumentContentChangeEvent \<Rightarrow> bool \<times> Main \<Rightarrow>
     error option \<times> bool \<times> Main" where
  "processChange doc fileBookmarkList change s =
     (if newLineCount change = oldLineCount change then
        (case updateBookmarkLineTextInRange doc fileBookmarkList
                (oldFirstLine change) (oldLastLine change) (snd s) of
           (e, st1) \<Rightarrow> (e, fst s, st1))
      else if newLineCount change > oldLineCount change then
        forEach
          (insertStep doc (shiftDownFromLine doc change)
             (newLineCount change - oldLineCount change) (oldFirstLine change)
             (newLastLine change))
          fileBookmarkList s
      else
        (let deleteFrom = deleteFromLine (bookmarkObjects (snd s)) doc fileBookmarkList change;
             shiftUpBy = oldLineCount change - newLineCount change
         in forEach
              (deleteStep doc (oldFirstLine change) deleteFrom (deleteFrom + shiftUpBy) shiftUpBy
                 (newLastLine change))
              fileBookmarkList s))"

text \<open>
  \<open>onEditorDocumentChanged\<close>.  An exception of \<open>lineAt\<close> leaves the handler at once, with
  the changes made so far and without the final save.
\<close>

definition onEditorDocumentChanged :: "TextDocumentChangeEvent \<Rightarrow> Main \<Rightarrow> error option \<times> Main" where
  "onEditorDocumentChanged event st =
     (let (fileBookmarkList, st1) = getTempDocumentBookmarkList (uri_fsPath (document event)) st
      in if length fileBookmarkList = 0 then (None, st1)
         else
           (case forEach (processChange (document event) fileBookmarkList)
                   (contentChanges event) (False, st1) of
              (Some e, bookmarksChanged, st2) \<Rightarrow> (Some e, st2)
            | (None, bookmarksChanged, st2) \<Rightarrow>
                (if bookmarksChanged then (None, snd (saveState st2)) else (None, st2))))"









subsection \<open>Toggling\<close>

definition toggleBookmark :: "string \<Rightarrow> int \<Rightarrow> int \<Rightarrow> string \<Rightarrow> ref \<Rightarrow> Main \<Rightarrow> Main" where
  "toggleBookmark p l c txt g st =
     (let (list, st1) = getTempDocumentBookmarkList p st
      in case find (\<lambda>b. lineNumber (bookmarkObjects st1 b) = l
                        \<and> group (bookmarkObjects st1 b) = g) list of
           Some existingBookmark \<Rightarrow> snd (saveState (deleteBookmark existingBookmark st1))
         | None \<Rightarrow>
             (let (b, st2) = allocBookmark (new_Bookmark p l c None txt g) st1;
                  st3 = sortBookmarks (st2\<lparr>bookmarks := bookmarks st2 @ [b]\<rparr>)
              in snd (saveState
                        (st3\<lparr>tempDocumentBookmarks := (tempDocumentBookmarks st3)(p := None),
                             tempGroupBookmarks := (tempGroupBookmarks st3)(g := None)\<rparr>))))"

subsection \<open>Jumping and the failed-jump flag\<close>

text \<open>
  How \<open>showTextDocument\<close> and the reveal went: the three ways out of \<open>jumpToBookmark\<close>.
  The messages are kept without the text of the exception or the count that the source
  appends to them.
\<close>

datatype jump_outcome = Revealed | RevealThrew | OpenRejected

definition setFailedJump :: "ref \<Rightarrow> bool \<Rightarrow> Main \<Rightarrow> Main" where
  "setFailedJump b v st =
     st\<lparr>bookmarkObjects := (bookmarkObjects st)(b := (bookmarkObjects st b)\<lparr>failedJump := v\<rparr>)\<rparr>"

definition jumpToBookmark :: "ref \<Rightarrow> jump_outcome \<Rightarrow> Main \<Rightarrow> Main" where
  "jumpToBookmark b outcome st =
     (case outcome of
        Revealed \<Rightarrow> setFailedJump b False st
      | RevealThrew \<Rightarrow>
          showWarningMessage ''ERROR: Failed to navigate to bookmark (3)'' (setFailedJump b True st)
      | OpenRejected \<Rightarrow>
          showWarningMessage ''ERROR: Failed to navigate to bookmark (2)'' (setFailedJump b True st))"

definition actionClearFailedJumpFlags :: "Main \<Rightarrow> Main" where
  "actionClearFailedJumpFlags st =
     snd (saveState
            (showInformationMessage ''ERROR: Cleared broken bookmark flags''
               (fold (\<lambda>b s. if failedJump (bookmarkObjects s b) then setFailedJump b False s else s)
                  (bookmarks st) st)))"

subsection \<open>Renamed files\<close>

record FileRename =
  oldFsPath :: string
  newFsPath :: string
  newIsDirectory :: bool

text \<open>
  The loops of \<open>onFilesRenamed\<close> over the bookmarks, for one renamed file or directory;
  the first component collects the keys of \<open>changedFiles\<close>.
\<close>

definition renameStep :: "FileRename \<Rightarrow> ref \<Rightarrow> string list \<times> Main \<Rightarrow> string list \<times> Main" where
  "renameStep rename b s =
     (let st = snd s; original = fsPath (bookmarkObjects st b)
      in if newIsDirectory rename then
           (if startsWith original (oldFsPath rename) then
              (let moved = newFsPath rename @ drop (length (oldFsPath rename)) original
               in (fst s @ [original, moved],
                   st\<lparr>bookmarkObjects :=
                        (bookmarkObjects st)(b := (bookmarkObjects st b)\<lparr>fsPath := moved\<rparr>)\<rparr>))
            else s)
         else
           (if original = oldFsPath rename then
              (fst s @ [oldFsPath rename, newFsPath rename],
               st\<lparr>bookmarkObjects :=
                    (bookmarkObjects st)
                      (b := (bookmarkObjects st b)\<lparr>fsPath := newFsPath rename\<rparr>)\<rparr>)
            else s))"

definition onFilesRenamed :: "FileRename list \<Rightarrow> Main \<Rightarrow> Main" where
  "onFilesRenamed files st =
     (let (changedFiles, st1) =
            fold (\<lambda>rename s. fold (renameStep rename) (bookmarks (snd s)) s) files ([], st);
          st2 = st1\<lparr>tempDocumentBookmarks :=
                       (\<lambda>p. if p \<in> set changedFiles then None else tempDocumentBookmarks st1 p)\<rparr>
      in if length changedFiles > 0 then snd (saveState st2) else st2)"

subsection \<open>The canonical order\<close>

text \<open>
  The bookmark array is in the order of \<open>Bookmark.sortByLocation\<close>: no entry compares
  greater than a later one.
\<close>

definition isSortedByLocation :: "Main \<Rightarrow> bool" where
  "isSortedByLocation st \<longleftrightarrow>
     sorted_wrt (\<lambda>a b. sortByLocation (localeCompare st)
                        (bookmarkObjects st a) (bookmarkObjects st b) \<le> 0)
       (bookmarks st)"

subsection \<open>Operations\<close>

text \<open>
  The operations above as values, and the state that each leaves behind; an exception of
  the edit handler leaves the state it had reached.
\<close>

datatype operation =
    EditorDocumentChanged TextDocumentChangeEvent
  | ToggleBookmark string int int string ref
  | DeleteBookmark ref
  | JumpToBookmark ref jump_outcome
  | ClearFailedJumpFlags
  | FilesRenamed "FileRename list"
  | ActivateGroup string
  | SetHideInactiveGroups bool
  | SetHideAll bool
  | SaveState
  | NextBookmark string int
  | PreviousBookmark string int

fun step :: "operation \<Rightarrow> Main \<Rightarrow> Main" where
  "step (EditorDocumentChanged event) st = snd (onEditorDocumentChanged event st)"
| "step (ToggleBookmark p l c txt g) st = toggleBookmark p l c txt g st"
| "step (DeleteBookmark b) st = deleteBookmark b st"
| "step (JumpToBookmark b outcome) st = jumpToBookmark b outcome st"
| "step ClearFailedJumpFlags st = actionClearFailedJumpFlags st"
| "step (FilesRenamed files) st = onFilesRenamed files st"
| "step (ActivateGroup n) st = activateGroup n st"
| "step (SetHideInactiveGroups v) st = setHideInactiveGroups v st"
| "step (SetHideAll v) st = setHideAll v st"
| "step SaveState st = snd (saveState st)"
| "step (NextBookmark p l) st = snd (nextBookmark p l st)"
| "step (PreviousBookmark p l) st = snd (previousBookmark p l st)"


text \<open>
  Between two states the flag of the bookmark \<open>r\<close> is the same and no reference has been
  given back; it only serves the proofs.
\<close>

definition keepsFlag :: "ref \<Rightarrow> Main \<Rightarrow> Main \<Rightarrow> bool" where
  "keepsFlag r st st' \<longleftrightarrow>
     failedJump (bookmarkObjects st' r) = failedJump (bookmarkObjects st r) \<and>
     nextRef st \<le> nextRef st'"

section \<open>Example states\<close>

text \<open>
  The comparison by code units, with result \<open>-1\<close>, \<open>0\<close> or \<open>1\<close>: the collation of the
  example states.  The examples compare only equal paths and paths that differ first in a
  lower-case letter, on which the collation of the host gives the same sign.
\<close>

fun codeUnitCompare :: collation where
  "codeUnitCompare [] [] = 0"
| "codeUnitCompare [] (y # ys) = - 1"
| "codeUnitCompare (x # xs) [] = 1"
| "codeUnitCompare (x # xs) (y # ys) =
     (if (of_char x :: nat) < of_char y then - 1
      else if (of_char y :: nat) < of_char x then 1
      else codeUnitCompare xs ys)"

text \<open>A state with no group and no bookmark, from which the example states are built.\<close>

definition emptyState :: Main where
  "emptyState =
     \<lparr>groups = [], bookmarks = [], activeGroup = 0, colors = [], defaultShape = ''bookmark'',
      hideInactiveGroups = False, hideAll = False,
      tempDocumentBookmarks = (\<lambda>p. None), tempGroupBookmarks = (\<lambda>g. None),
      lastSaveTimestamp = 0,
      bookmarkObjects = (\<lambda>r. new_Bookmark [] 0 0 None [] 0),
      groupObjects = (\<lambda>r. new_Group [] [] [] []),
      nextRef = 0, defaultGroupName = ''default'', maxGroupNameLength = 40,
      workspaceFolder = None,
      workspaceState =
        \<lparr>mementoBookmarks = None, mementoGroups = None, mementoActiveGroup = None,
         mementoHideInactiveGroups = None, mementoHideAll = None\<rparr>,
      storage = \<lparr>artifact = None, dirExists = False, dirOtherEntries = 0\<rparr>,
      clock = 0, messages = [], localeCompare = codeUnitCompare\<rparr>"

text \<open>
  One group (object 10, the active one) with three bookmarks (objects 1, 2, 3) in the file
  \<open>/w/a.ts\<close>, at lines 4, 5 and 6.
\<close>

definition threeBookmarks :: Main where
  "threeBookmarks =
     emptyState
       \<lparr>groups := [10], activeGroup := 10, bookmarks := [1, 2, 3], nextRef := 11,
        groupObjects :=
          (groupObjects emptyState)(10 := new_Group ''default'' ''00ddddff'' ''bookmark'' []),
        bookmarkObjects :=
          (bookmarkObjects emptyState)
            (1 := new_Bookmark ''/w/a.ts'' 4 0 None ''four'' 10,
             2 := new_Bookmark ''/w/a.ts'' 5 0 None ''five'' 10,
             3 := new_Bookmark ''/w/a.ts'' 6 0 None ''six'' 10)\<rparr>"

text \<open>Bookmarks at lines 4 and 6 only, and an editor whose cursor is on line 5.\<close>

definition tieState :: Main where
  "tieState = threeBookmarks\<lparr>bookmarks := [1, 3]\<rparr>"

definition tieEditor :: TextEditor where
  "tieEditor =
     \<lparr>editor_document = \<lparr>uri_fsPath = ''/w/a.ts'', doc_lines = []\<rparr>,
      selections = [\<lparr>line = 5, character = 0\<rparr>]\<rparr>"

text \<open>The three bookmarks with the first two, and with all three, flagged as failed.\<close>

definition twoFailed :: Main where
  "twoFailed = setFailedJump 2 True (setFailedJump 1 True threeBookmarks)"

definition allFailed :: Main where
  "allFailed = setFailedJump 3 True twoFailed"

text \<open>No group yet, and two configured colours.\<close>

definition twoColors :: Main where
  "twoColors = emptyState\<lparr>colors := [(''red'', ''ff0000ff''), (''blue'', ''0000ffff'')]\<rparr>"

text \<open>
  The default group alone, with its colour, shape and icon text changed, in the workspace
  \<open>/w\<close> whose storage directory holds the artifact and nothing else.
\<close>

definition customizedDefault :: Main where
  "customizedDefault =
     emptyState
       \<lparr>groups := [10], activeGroup := 10, nextRef := 11, workspaceFolder := Some ''/w'',
        groupObjects :=
          (groupObjects emptyState)(10 := new_Group ''default'' ''ff0000ff'' ''star'' ''x''),
        storage := \<lparr>artifact = Some NotJson, dirExists = True, dirOtherEntries = 0\<rparr>\<rparr>"








text \<open>
  Two bookmarks in two files of the workspace folder \<open>/w\<close>, under any collation, and the
  renaming of the first file into a directory that sorts after the second.
\<close>

definition twoFiles :: "collation \<Rightarrow> Main" where
  "twoFiles cmp =
     emptyState
       \<lparr>groups := [10], activeGroup := 10, bookmarks := [2, 3], nextRef := 11,
        workspaceFolder := Some ''/w'', localeCompare := cmp,
        groupObjects :=
          (groupObjects emptyState)(10 := new_Group ''default'' ''00ddddff'' ''bookmark'' []),
        bookmarkObjects :=
          (bookmarkObjects emptyState)
            (2 := new_Bookmark ''/w/a/x.ts'' 1 0 None ''one'' 10,
             3 := new_Bookmark ''/w/b/y.ts'' 1 0 None ''uno'' 10)\<rparr>"

definition renameX :: FileRename where
  "renameX = \<lparr>oldFsPath = ''/w/a/x.ts'', newFsPath = ''/w/c/x.ts'', newIsDirectory = False\<rparr>"

section \<open>Helper facts about the host primitives\<close>

lemma find_SomeD: "find P xs = Some x \<Longrightarrow> x \<in> set xs \<and> P x"
  by (induction xs) (auto split: if_splits)

lemma find_NoneD: "find P xs = None \<Longrightarrow> x \<in> set xs \<Longrightarrow> \<not> P x"
  by (induction xs) (auto split: if_splits)

lemma find_NoneI: "(\<And>x. x \<in> set xs \<Longrightarrow> \<not> P x) \<Longrightarrow> find P xs = None"
  by (induction xs) auto

lemma find_not_None: "x \<in> set xs \<Longrightarrow> P x \<Longrightarrow> find P xs \<noteq> None"
  by (induction xs) auto

lemmas example_defs = threeBookmarks_def emptyState_def new_Bookmark_def new_Group_def
  tieState_def tieEditor_def twoFailed_def allFailed_def setFailedJump_def Let_def

lemma codeUnitCompare_same [simp]: "codeUnitCompare s s = 0"
  by (induction s) auto


section \<open>Group lookup never fails\<close>

text \<open>
  C10: for every name, \<open>getGroupByName\<close> returns the first group of the registry with
  exactly that name when there is one, and the active group otherwise; it is a total
  function, so it always returns a group.
\<close>

theorem getGroupByName_total:
  "((\<exists>g \<in> set (groups st). name (groupObjects st g) = gname) \<longrightarrow>
        find (\<lambda>g. name (groupObjects st g) = gname) (groups st) =
          Some (getGroupByName st gname) \<and>
        getGroupByName st gname \<in> set (groups st) \<and>
        name (groupObjects st (getGroupByName st gname)) = gname) \<and>
   ((\<forall>g \<in> set (groups st). name (groupObjects st g) \<noteq> gname) \<longrightarrow>
        getGroupByName st gname = activeGroup st)"
proof (cases "find (\<lambda>g. name (groupObjects st g) = gname) (groups st)")
  case None
  have no: "\<And>g. g \<in> set (groups st) \<Longrightarrow> name (groupObjects st g) \<noteq> gname"
    using find_NoneD [OF None] by blast
  have "getGroupByName st gname = activeGroup st"
    by (simp add: getGroupByName_def None)
  with no show ?thesis by blast
next
  case (Some g)
  have g: "g \<in> set (groups st) \<and> name (groupObjects st g) = gname"
    using find_SomeD [OF Some] by simp
  have eq: "getGroupByName st gname = g"
    by (simp add: getGroupByName_def Some)
  show ?thesis
    using g Some unfolding eq by blast
qed

text \<open>
  C10, at the three bookmarks: the name of the only group finds it, an unknown name gives
  the active group.
\<close>

theorem getGroupByName_total_witness:
  "getGroupByName threeBookmarks ''default'' = 10 \<and>
   getGroupByName threeBookmarks ''missing'' = activeGroup threeBookmarks"
proof -
  have a: "\<exists>g \<in> set (groups threeBookmarks). name (groupObjects threeBookmarks g) = ''default''"
    by (simp add: example_defs)
  have b: "\<forall>g \<in> set (groups threeBookmarks). name (groupObjects threeBookmarks g) \<noteq> ''missing''"
    by (simp add: example_defs)
  have c: "find (\<lambda>g. name (groupObjects threeBookmarks g) = ''default'') (groups threeBookmarks) = Some 10"
    by (simp add: example_defs)
  from getGroupByName_total [of threeBookmarks "''default''"] a c
  have "getGroupByName threeBookmarks ''default'' = 10" by simp
  moreover from getGroupByName_total [of threeBookmarks "''missing''"] b
  have "getGroupByName threeBookmarks ''missing'' = activeGroup threeBookmarks" by blast
  ultimately show ?thesis by simp
qed


section \<open>Navigation skips failed bookmarks\<close>

lemma getTempGroupBookmarkList_objects [simp]:
  "bookmarkObjects (snd (getTempGroupBookmarkList g st)) = bookmarkObjects st"
  by (simp add: getTempGroupBookmarkList_def Let_def split: option.splits)

lemma getTempGroupBookmarkList_messages [simp]:
  "messages (snd (getTempGroupBookmarkList g st)) = messages st"
  by (simp add: getTempGroupBookmarkList_def Let_def split: option.splits)

lemma getTempGroupBookmarkList_localeCompare [simp]:
  "localeCompare (snd (getTempGroupBookmarkList g st)) = localeCompare st"
  by (simp add: getTempGroupBookmarkList_def Let_def split: option.splits)

lemma nextFind_fst:
  "fst (nextFind cmp h p l bs n) =
     find (\<lambda>b. \<not> failedJump (h b) \<and> strictlyFollows cmp (h b) p l) bs"
  by (induction bs arbitrary: n) (auto simp: strictlyFollows_def)

lemma nextFind_None:
  "fst (nextFind cmp h p l bs n) = None \<Longrightarrow>
     snd (nextFind cmp h p l bs n) = n + length (filter (\<lambda>b. failedJump (h b)) bs)"
  by (induction bs arbitrary: n) (auto split: if_splits)

lemma previousScan_fst:
  "fst (previousScan cmp h p l bs n) =
     find (\<lambda>b. \<not> failedJump (h b) \<and> strictlyPrecedes cmp (h b) p l) bs"
  by (induction bs arbitrary: n) (auto simp: strictlyPrecedes_def)

lemma previousScan_None:
  "fst (previousScan cmp h p l bs n) = None \<Longrightarrow>
     snd (previousScan cmp h p l bs n) = n + length (filter (\<lambda>b. failedJump (h b)) bs)"
  by (induction bs arbitrary: n) (auto split: if_splits)

lemma filter_length_all: "\<forall>x \<in> set xs. P x \<Longrightarrow> length (filter P xs) = length xs"
  by (induction xs) auto

lemma nextBookmark_wrap:
  "nextBookmark p l st =
     wrapAround (activeGroupBookmarkList st) (activeGroupBookmarkList st)
       (nextFind (localeCompare st) (bookmarkObjects st) p l (activeGroupBookmarkList st) 0)
       (snd (getTempGroupBookmarkList (activeGroup st) st))"
proof -
  obtain L st1 where g: "getTempGroupBookmarkList (activeGroup st) st = (L, st1)"
    by fastforce
  have h: "bookmarkObjects st1 = bookmarkObjects st"
    using getTempGroupBookmarkList_objects [of "activeGroup st" st] g by simp
  have c: "localeCompare st1 = localeCompare st"
    using getTempGroupBookmarkList_localeCompare [of "activeGroup st" st] g by simp
  obtain fc bc where f: "nextFind (localeCompare st) (bookmarkObjects st) p l L 0 = (fc, bc)"
    by fastforce
  show ?thesis
    by (simp add: nextBookmark_def wrapAround_def activeGroupBookmarkList_def g h c f
          split: option.splits)
qed

lemma previousBookmark_wrap:
  "previousBookmark p l st =
     wrapAround (activeGroupBookmarkList st) (rev (activeGroupBookmarkList st))
       (previousScan (localeCompare st) (bookmarkObjects st) p l
          (rev (activeGroupBookmarkList st)) 0)
       (snd (getTempGroupBookmarkList (activeGroup st) st))"
proof -
  obtain L st1 where g: "getTempGroupBookmarkList (activeGroup st) st = (L, st1)"
    by fastforce
  have h: "bookmarkObjects st1 = bookmarkObjects st"
    using getTempGroupBookmarkList_objects [of "activeGroup st" st] g by simp
  have c: "localeCompare st1 = localeCompare st"
    using getTempGroupBookmarkList_localeCompare [of "activeGroup st" st] g by simp
  obtain fc bc where f:
    "previousScan (localeCompare st) (bookmarkObjects st) p l (rev L) 0 = (fc, bc)"
    by fastforce
  show ?thesis
    by (simp add: previousBookmark_def wrapAround_def activeGroupBookmarkList_def g h c f
          split: option.splits)
qed

text \<open>
  The shared tail, for a first scan that found the first entry of its order that is not
  flagged and satisfies \<open>Q\<close>, and that counted the flagged entries when it found none.
\<close>

lemma wrapAround_result:
  assumes h: "bookmarkObjects st1 = h" and m: "messages st1 = msgs"
    and ord: "set order = set L"
    and found: "fst scan = find (\<lambda>b. \<not> failedJump (h b) \<and> Q b) order"
    and cnt: "fst scan = None \<Longrightarrow> snd scan = length (filter (\<lambda>b. failedJump (h b)) L)"
  shows "fst (wrapAround L order scan st1) =
           (case find (\<lambda>b. \<not> failedJump (h b) \<and> Q b) order of
              Some b \<Rightarrow> Some b
            | None \<Rightarrow> find (\<lambda>b. \<not> failedJump (h b)) order)"
    and "messages (snd (wrapAround L order scan st1)) =
           (if L \<noteq> [] \<and> (\<forall>b \<in> set L. failedJump (h b)) then msgs @ [allBrokenWarning]
            else msgs)"
proof -
  let ?F = "find (\<lambda>b. \<not> failedJump (h b) \<and> Q b) order"
  let ?W = "find (\<lambda>b. \<not> failedJump (h b)) order"
  have both: "fst (wrapAround L order scan st1) = (case ?F of Some b \<Rightarrow> Some b | None \<Rightarrow> ?W) \<and>
     messages (snd (wrapAround L order scan st1)) =
       (if L \<noteq> [] \<and> (\<forall>b \<in> set L. failedJump (h b)) then msgs @ [allBrokenWarning] else msgs)"
  proof (cases ?F)
    case (Some b)
    then have s: "fst scan = Some b" using found by simp
    have "b \<in> set order \<and> \<not> failedJump (h b)"
      using find_SomeD [OF Some] by simp
    then have ex: "\<not> (\<forall>b \<in> set L. failedJump (h b))"
      using ord by auto
    show ?thesis
      using s Some ex m by (simp add: wrapAround_def)
  next
    case None
    then have s: "fst scan = None" using found by simp
    note c = cnt [OF s]
    show ?thesis
    proof (cases "\<forall>b \<in> set L. failedJump (h b)")
      case True
      then have full: "snd scan = length L"
        using c by (simp add: filter_length_all)
      have w: "?W = None"
        using True ord by (intro find_NoneI) auto
      show ?thesis
        using s None True full w m
        by (cases "L = []") (simp_all add: wrapAround_def showWarningMessage_def)
    next
      case False
      then obtain x where x: "x \<in> set L" "\<not> failedJump (h x)" by blast
      then have lt: "length (filter (\<lambda>b. failedJump (h b)) L) < length L"
        by (intro length_filter_less) auto
      have ne: "L \<noteq> []" using x by auto
      have "?W \<noteq> None"
        using x ord by (auto simp: find_None_iff)
      then obtain y where y: "?W = Some y" by blast
      show ?thesis
        using s None False c lt ne y h m by (simp add: wrapAround_def)
    qed
  qed
  show "fst (wrapAround L order scan st1) = (case ?F of Some b \<Rightarrow> Some b | None \<Rightarrow> ?W)"
    using both by (rule conjunct1)
  show "messages (snd (wrapAround L order scan st1)) =
       (if L \<noteq> [] \<and> (\<forall>b \<in> set L. failedJump (h b)) then msgs @ [allBrokenWarning] else msgs)"
    using both by (rule conjunct2)
qed

lemma nextBookmark_result:
  "fst (nextBookmark p l st) =
     (case find (\<lambda>b. \<not> failedJump (bookmarkObjects st b) \<and>
                     strictlyFollows (localeCompare st) (bookmarkObjects st b) p l)
             (activeGroupBookmarkList st) of
        Some b \<Rightarrow> Some b
      | None \<Rightarrow> find (\<lambda>b. \<not> failedJump (bookmarkObjects st b)) (activeGroupBookmarkList st))"
  "messages (snd (nextBookmark p l st)) =
     (if activeGroupBookmarkList st \<noteq> [] \<and>
         (\<forall>b \<in> set (activeGroupBookmarkList st). failedJump (bookmarkObjects st b))
      then messages st @ [allBrokenWarning] else messages st)"
proof -
  have cnt: "fst (nextFind (localeCompare st) (bookmarkObjects st) p l
                   (activeGroupBookmarkList st) 0) = None \<Longrightarrow>
      snd (nextFind (localeCompare st) (bookmarkObjects st) p l
             (activeGroupBookmarkList st) 0) =
        length (filter (\<lambda>b. failedJump (bookmarkObjects st b)) (activeGroupBookmarkList st))"
    using nextFind_None [of "localeCompare st" "bookmarkObjects st" p l
        "activeGroupBookmarkList st" 0]
    by simp
  note w = wrapAround_result [where h = "bookmarkObjects st"
        and ?st1.0 = "snd (getTempGroupBookmarkList (activeGroup st) st)"
        and Q = "\<lambda>b. strictlyFollows (localeCompare st) (bookmarkObjects st b) p l"
        and order = "activeGroupBookmarkList st",
        OF getTempGroupBookmarkList_objects getTempGroupBookmarkList_messages refl
           nextFind_fst cnt, folded nextBookmark_wrap]
  show "fst (nextBookmark p l st) =
     (case find (\<lambda>b. \<not> failedJump (bookmarkObjects st b) \<and>
                     strictlyFollows (localeCompare st) (bookmarkObjects st b) p l)
             (activeGroupBookmarkList st) of
        Some b \<Rightarrow> Some b
      | None \<Rightarrow> find (\<lambda>b. \<not> failedJump (bookmarkObjects st b)) (activeGroupBookmarkList st))"
    by (rule w(1))
  show "messages (snd (nextBookmark p l st)) =
     (if activeGroupBookmarkList st \<noteq> [] \<and>
         (\<forall>b \<in> set (activeGroupBookmarkList st). failedJump (bookmarkObjects st b))
      then messages st @ [allBrokenWarning] else messages st)"
    by (rule w(2))
qed

lemma previousBookmark_result:
  "fst (previousBookmark p l st) =
     (case find (\<lambda>b. \<not> failedJump (bookmarkObjects st b) \<and>
                     strictlyPrecedes (localeCompare st) (bookmarkObjects st b) p l)
             (rev (activeGroupBookmarkList st)) of
        Some b \<Rightarrow> Some b
      | None \<Rightarrow>
          find (\<lambda>b. \<not> failedJump (bookmarkObjects st b)) (rev (activeGroupBookmarkList st)))"
  "messages (snd (previousBookmark p l st)) =
     (if activeGroupBookmarkList st \<noteq> [] \<and>
         (\<forall>b \<in> set (activeGroupBookmarkList st). failedJump (bookmarkObjects st b))
      then messages st @ [allBrokenWarning] else messages st)"
proof -
  have ord: "set (rev (activeGroupBookmarkList st)) = set (activeGroupBookmarkList st)"
    by simp
  have cnt: "fst (previousScan (localeCompare st) (bookmarkObjects st) p l
                   (rev (activeGroupBookmarkList st)) 0) = None \<Longrightarrow>
      snd (previousScan (localeCompare st) (bookmarkObjects st) p l
             (rev (activeGroupBookmarkList st)) 0) =
        length (filter (\<lambda>b. failedJump (bookmarkObjects st b)) (activeGroupBookmarkList st))"
    using previousScan_None [of "localeCompare st" "bookmarkObjects st" p l
        "rev (activeGroupBookmarkList st)" 0]
    by (simp flip: rev_filter)
  note w = wrapAround_result [where h = "bookmarkObjects st"
        and ?st1.0 = "snd (getTempGroupBookmarkList (activeGroup st) st)"
        and Q = "\<lambda>b. strictlyPrecedes (localeCompare st) (bookmarkObjects st b) p l"
        and order = "rev (activeGroupBookmarkList st)",
        OF getTempGroupBookmarkList_objects getTempGroupBookmarkList_messages ord
           previousScan_fst cnt, folded previousBookmark_wrap]
  show "fst (previousBookmark p l st) =
     (case find (\<lambda>b. \<not> failedJump (bookmarkObjects st b) \<and>
                     strictlyPrecedes (localeCompare st) (bookmarkObjects st b) p l)
             (rev (activeGroupBookmarkList st)) of
        Some b \<Rightarrow> Some b
      | None \<Rightarrow>
          find (\<lambda>b. \<not> failedJump (bookmarkObjects st b)) (rev (activeGroupBookmarkList st)))"
    by (rule w(1))
  show "messages (snd (previousBookmark p l st)) =
     (if activeGroupBookmarkList st \<noteq> [] \<and>
         (\<forall>b \<in> set (activeGroupBookmarkList st). failedJump (bookmarkObjects st b))
      then messages st @ [allBrokenWarning] else messages st)"
    by (rule w(2))
qed

text \<open>
  C4: \<open>nextBookmark\<close> never returns a bookmark flagged \<open>failedJump\<close>.  Its result is the
  first entry of the active group's list that is not flagged and lies strictly after the
  query position, the paths being compared by the host's \<open>localeCompare\<close>, whatever
  collation that is; when there is no such entry, be it that nothing follows the position
  or that only flagged entries do, the result is the first entry that is not flagged; and
  when the list is not empty and every entry is flagged, no bookmark is returned and the
  warning that all bookmarks are broken is shown, which is shown in no other case.  The
  same holds for \<open>previousBookmark\<close>, with the list read from its end: the last entry not
  flagged and strictly before the position, else the last entry that is not flagged.
\<close>

theorem navigation_skips_failed:
  "(\<forall>b. fst (nextBookmark p l st) = Some b \<longrightarrow>
        b \<in> set (activeGroupBookmarkList st) \<and> \<not> failedJump (bookmarkObjects st b)) \<and>
   fst (nextBookmark p l st) =
     (case find (\<lambda>b. \<not> failedJump (bookmarkObjects st b) \<and>
                     strictlyFollows (localeCompare st) (bookmarkObjects st b) p l)
             (activeGroupBookmarkList st) of
        Some b \<Rightarrow> Some b
      | None \<Rightarrow> find (\<lambda>b. \<not> failedJump (bookmarkObjects st b)) (activeGroupBookmarkList st)) \<and>
   ((\<forall>b \<in> set (activeGroupBookmarkList st).
        \<not> failedJump (bookmarkObjects st b) \<longrightarrow>
        \<not> strictlyFollows (localeCompare st) (bookmarkObjects st b) p l) \<longrightarrow>
        fst (nextBookmark p l st) =
          find (\<lambda>b. \<not> failedJump (bookmarkObjects st b)) (activeGroupBookmarkList st)) \<and>
   (activeGroupBookmarkList st \<noteq> [] \<and>
    (\<forall>b \<in> set (activeGroupBookmarkList st). failedJump (bookmarkObjects st b)) \<longrightarrow>
        fst (nextBookmark p l st) = None \<and>
        messages (snd (nextBookmark p l st)) = messages st @ [allBrokenWarning]) \<and>
   (\<not> (activeGroupBookmarkList st \<noteq> [] \<and>
       (\<forall>b \<in> set (activeGroupBookmarkList st). failedJump (bookmarkObjects st b))) \<longrightarrow>
        messages (snd (nextBookmark p l st)) = messages st) \<and>
   (\<forall>b. fst (previousBookmark p l st) = Some b \<longrightarrow>
        b \<in> set (activeGroupBookmarkList st) \<and> \<not> failedJump (bookmarkObjects st b)) \<and>
   fst (previousBookmark p l st) =
     (case find (\<lambda>b. \<not> failedJump (bookmarkObjects st b) \<and>
                     strictlyPrecedes (localeCompare st) (bookmarkObjects st b) p l)
             (rev (activeGroupBookmarkList st)) of
        Some b \<Rightarrow> Some b
      | None \<Rightarrow>
          find (\<lambda>b. \<not> failedJump (bookmarkObjects st b)) (rev (activeGroupBookmarkList st))) \<and>
   ((\<forall>b \<in> set (activeGroupBookmarkList st).
        \<not> failedJump (bookmarkObjects st b) \<longrightarrow>
        \<not> strictlyPrecedes (localeCompare st) (bookmarkObjects st b) p l) \<longrightarrow>
        fst (previousBookmark p l st) =
          find (\<lambda>b. \<not> failedJump (bookmarkObjects st b)) (rev (activeGroupBookmarkList st))) \<and>
   (activeGroupBookmarkList st \<noteq> [] \<and>
    (\<forall>b \<in> set (activeGroupBookmarkList st). failedJump (bookmarkObjects st b)) \<longrightarrow>
        fst (previousBookmark p l st) = None \<and>
        messages (snd (previousBookmark p l st)) = messages st @ [allBrokenWarning]) \<and>
   (\<not> (activeGroupBookmarkList st \<noteq> [] \<and>
       (\<forall>b \<in> set (activeGroupBookmarkList st). failedJump (bookmarkObjects st b))) \<longrightarrow>
        messages (snd (previousBookmark p l st)) = messages st)"
proof -
  let ?L = "activeGroupBookmarkList st"
  let ?h = "bookmarkObjects st"
  let ?F = "\<lambda>b. \<not> failedJump (?h b) \<and> strictlyFollows (localeCompare st) (?h b) p l"
  let ?P = "\<lambda>b. \<not> failedJump (?h b) \<and> strictlyPrecedes (localeCompare st) (?h b) p l"
  let ?U = "\<lambda>b. \<not> failedJump (?h b)"
  note nr = nextBookmark_result [of p l st]
  note pr = previousBookmark_result [of p l st]
  have n1: "\<forall>b. fst (nextBookmark p l st) = Some b \<longrightarrow> b \<in> set ?L \<and> \<not> failedJump (?h b)"
  proof (intro allI impI)
    fix b assume a: "fst (nextBookmark p l st) = Some b"
    show "b \<in> set ?L \<and> \<not> failedJump (?h b)"
    proof (cases "find ?F ?L")
      case None
      then have "find ?U ?L = Some b" using a nr(1) by simp
      then show ?thesis using find_SomeD [of ?U ?L b] by simp
    next
      case (Some c)
      then have "c = b" using a nr(1) by simp
      then show ?thesis using find_SomeD [OF Some] by simp
    qed
  qed
  have p1: "\<forall>b. fst (previousBookmark p l st) = Some b \<longrightarrow>
              b \<in> set ?L \<and> \<not> failedJump (?h b)"
  proof (intro allI impI)
    fix b assume a: "fst (previousBookmark p l st) = Some b"
    show "b \<in> set ?L \<and> \<not> failedJump (?h b)"
    proof (cases "find ?P (rev ?L)")
      case None
      then have "find ?U (rev ?L) = Some b" using a pr(1) by simp
      then show ?thesis using find_SomeD [of ?U "rev ?L" b] by simp
    next
      case (Some c)
      then have "c = b" using a pr(1) by simp
      then show ?thesis using find_SomeD [OF Some] by simp
    qed
  qed
  have n3: "(\<forall>b \<in> set ?L. \<not> failedJump (?h b) \<longrightarrow>
               \<not> strictlyFollows (localeCompare st) (?h b) p l) \<longrightarrow>
            fst (nextBookmark p l st) = find ?U ?L"
  proof
    assume "\<forall>b \<in> set ?L. \<not> failedJump (?h b) \<longrightarrow>
               \<not> strictlyFollows (localeCompare st) (?h b) p l"
    then have "find ?F ?L = None"
      by (intro find_NoneI) auto
    then show "fst (nextBookmark p l st) = find ?U ?L"
      using nr(1) by simp
  qed
  have p3: "(\<forall>b \<in> set ?L. \<not> failedJump (?h b) \<longrightarrow>
               \<not> strictlyPrecedes (localeCompare st) (?h b) p l) \<longrightarrow>
            fst (previousBookmark p l st) = find ?U (rev ?L)"
  proof
    assume "\<forall>b \<in> set ?L. \<not> failedJump (?h b) \<longrightarrow>
               \<not> strictlyPrecedes (localeCompare st) (?h b) p l"
    then have "find ?P (rev ?L) = None"
      by (intro find_NoneI) auto
    then show "fst (previousBookmark p l st) = find ?U (rev ?L)"
      using pr(1) by simp
  qed
  have n4: "?L \<noteq> [] \<and> (\<forall>b \<in> set ?L. failedJump (?h b)) \<longrightarrow>
              fst (nextBookmark p l st) = None \<and>
              messages (snd (nextBookmark p l st)) = messages st @ [allBrokenWarning]"
  proof
    assume a: "?L \<noteq> [] \<and> (\<forall>b \<in> set ?L. failedJump (?h b))"
    then have "find ?F ?L = None" "find ?U ?L = None"
      by (auto intro!: find_NoneI)
    then have "fst (nextBookmark p l st) = None"
      using nr(1) by simp
    moreover have "messages (snd (nextBookmark p l st)) = messages st @ [allBrokenWarning]"
      unfolding nr(2) using a by (rule if_P)
    ultimately show "fst (nextBookmark p l st) = None \<and>
              messages (snd (nextBookmark p l st)) = messages st @ [allBrokenWarning]"
      by (rule conjI)
  qed
  have p4: "?L \<noteq> [] \<and> (\<forall>b \<in> set ?L. failedJump (?h b)) \<longrightarrow>
              fst (previousBookmark p l st) = None \<and>
              messages (snd (previousBookmark p l st)) = messages st @ [allBrokenWarning]"
  proof
    assume a: "?L \<noteq> [] \<and> (\<forall>b \<in> set ?L. failedJump (?h b))"
    then have "find ?P (rev ?L) = None" "find ?U (rev ?L) = None"
      by (auto intro!: find_NoneI)
    then have "fst (previousBookmark p l st) = None"
      using pr(1) by simp
    moreover have "messages (snd (previousBookmark p l st)) = messages st @ [allBrokenWarning]"
      unfolding pr(2) using a by (rule if_P)
    ultimately show "fst (previousBookmark p l st) = None \<and>
              messages (snd (previousBookmark p l st)) = messages st @ [allBrokenWarning]"
      by (rule conjI)
  qed
  have n5: "\<not> (?L \<noteq> [] \<and> (\<forall>b \<in> set ?L. failedJump (?h b))) \<longrightarrow>
              messages (snd (nextBookmark p l st)) = messages st"
  proof
    assume a: "\<not> (?L \<noteq> [] \<and> (\<forall>b \<in> set ?L. failedJump (?h b)))"
    show "messages (snd (nextBookmark p l st)) = messages st"
      unfolding nr(2) using a by (rule if_not_P)
  qed
  have p5: "\<not> (?L \<noteq> [] \<and> (\<forall>b \<in> set ?L. failedJump (?h b))) \<longrightarrow>
              messages (snd (previousBookmark p l st)) = messages st"
  proof
    assume a: "\<not> (?L \<noteq> [] \<and> (\<forall>b \<in> set ?L. failedJump (?h b)))"
    show "messages (snd (previousBookmark p l st)) = messages st"
      unfolding pr(2) using a by (rule if_not_P)
  qed
  show ?thesis
    by (intro conjI) (rule n1, rule nr(1), rule n3, rule n4, rule n5,
        rule p1, rule pr(1), rule p3, rule p4, rule p5)
qed

text \<open>
  C4, at three bookmarks of one group on lines 4, 5 and 6: with the first two flagged,
  \<open>nextBookmark\<close> from line 9, after which nothing lies, and \<open>previousBookmark\<close> from
  line 6, before which only flagged entries lie, both reach the third, and no warning is
  shown; with all three flagged, nothing is returned and the warning is shown.
\<close>

theorem navigation_skips_failed_witness:
  "fst (nextBookmark ''/w/a.ts'' 9 twoFailed) = Some 3 \<and>
   fst (previousBookmark ''/w/a.ts'' 6 twoFailed) = Some 3 \<and>
   messages (snd (nextBookmark ''/w/a.ts'' 9 twoFailed)) = [] \<and>
   fst (nextBookmark ''/w/a.ts'' 0 allFailed) = None \<and>
   messages (snd (nextBookmark ''/w/a.ts'' 0 allFailed)) = [allBrokenWarning] \<and>
   fst (previousBookmark ''/w/a.ts'' 9 allFailed) = None"
proof -
  have L2: "activeGroupBookmarkList twoFailed = [1, 2, 3]"
    by (simp add: example_defs activeGroupBookmarkList_def getTempGroupBookmarkList_def)
  have L3: "activeGroupBookmarkList allFailed = [1, 2, 3]"
    by (simp add: example_defs activeGroupBookmarkList_def getTempGroupBookmarkList_def)
  have nf: "\<forall>b \<in> set (activeGroupBookmarkList twoFailed).
              \<not> failedJump (bookmarkObjects twoFailed b) \<longrightarrow>
              \<not> strictlyFollows (localeCompare twoFailed) (bookmarkObjects twoFailed b) ''/w/a.ts'' 9"
    unfolding L2 by (simp add: example_defs strictlyFollows_def)
  have np: "\<forall>b \<in> set (activeGroupBookmarkList twoFailed).
              \<not> failedJump (bookmarkObjects twoFailed b) \<longrightarrow>
              \<not> strictlyPrecedes (localeCompare twoFailed) (bookmarkObjects twoFailed b) ''/w/a.ts'' 6"
    unfolding L2 by (simp add: example_defs strictlyPrecedes_def)
  have af: "activeGroupBookmarkList allFailed \<noteq> [] \<and>
            (\<forall>b \<in> set (activeGroupBookmarkList allFailed). failedJump (bookmarkObjects allFailed b))"
    unfolding L3 by (simp add: example_defs)
  have naf: "\<not> (activeGroupBookmarkList twoFailed \<noteq> [] \<and>
            (\<forall>b \<in> set (activeGroupBookmarkList twoFailed).
               failedJump (bookmarkObjects twoFailed b)))"
    unfolding L2 by (simp add: example_defs)
  have f2: "find (\<lambda>b. \<not> failedJump (bookmarkObjects twoFailed b)) (activeGroupBookmarkList twoFailed) = Some 3"
    unfolding L2 by (simp add: example_defs)
  have r2: "find (\<lambda>b. \<not> failedJump (bookmarkObjects twoFailed b)) (rev (activeGroupBookmarkList twoFailed)) = Some 3"
    unfolding L2 by (simp add: example_defs)
  have m: "messages allFailed = []" "messages twoFailed = []"
    by (simp_all add: example_defs)
  note t2n = navigation_skips_failed [of "''/w/a.ts''" 9 twoFailed]
  note t2p = navigation_skips_failed [of "''/w/a.ts''" 6 twoFailed]
  note t3n = navigation_skips_failed [of "''/w/a.ts''" 0 allFailed]
  note t3p = navigation_skips_failed [of "''/w/a.ts''" 9 allFailed]
  have a: "fst (nextBookmark ''/w/a.ts'' 9 twoFailed) = Some 3"
    using mp [OF t2n [THEN conjunct2, THEN conjunct2, THEN conjunct1] nf] f2 by (rule trans)
  have b: "fst (previousBookmark ''/w/a.ts'' 6 twoFailed) = Some 3"
    using mp [OF t2p [THEN conjunct2, THEN conjunct2, THEN conjunct2, THEN conjunct2,
                      THEN conjunct2, THEN conjunct2, THEN conjunct2, THEN conjunct1] np] r2
    by (rule trans)
  have c0: "messages (snd (nextBookmark ''/w/a.ts'' 9 twoFailed)) = []"
    using mp [OF t2n [THEN conjunct2, THEN conjunct2, THEN conjunct2, THEN conjunct2,
                      THEN conjunct1] naf] m(2) by (rule trans)
  have c: "fst (nextBookmark ''/w/a.ts'' 0 allFailed) = None \<and>
     messages (snd (nextBookmark ''/w/a.ts'' 0 allFailed)) = [allBrokenWarning]"
    using mp [OF t3n [THEN conjunct2, THEN conjunct2, THEN conjunct2, THEN conjunct1] af] m(1)
    by simp
  have d: "fst (previousBookmark ''/w/a.ts'' 9 allFailed) = None"
    using mp [OF t3p [THEN conjunct2, THEN conjunct2, THEN conjunct2, THEN conjunct2,
                      THEN conjunct2, THEN conjunct2, THEN conjunct2, THEN conjunct2,
                      THEN conjunct1] af] by (rule conjunct1)
  show ?thesis
    using a b c0 c d by (intro conjI) simp_all
qed

section \<open>The nearest bookmark in a file\<close>

lemma nearestScan_inv:
  assumes rng: "\<forall>b \<in> set list. 0 \<le> lineNumber (h b) \<and> lineNumber (h b) < MAX_SAFE_INTEGER"
  shows "case nearestScan h q list of (nbl, nb, nal, na) \<Rightarrow>
           (case nb of
              None \<Rightarrow> nbl = - 1 \<and> (\<forall>b \<in> set list. \<not> lineNumber (h b) \<le> q)
            | Some r \<Rightarrow> r \<in> set list \<and> lineNumber (h r) = nbl \<and> nbl \<le> q \<and>
                        (\<forall>b \<in> set list. lineNumber (h b) \<le> q \<longrightarrow> lineNumber (h b) \<le> nbl)) \<and>
           (case na of
              None \<Rightarrow> nal = MAX_SAFE_INTEGER \<and> (\<forall>b \<in> set list. \<not> q \<le> lineNumber (h b))
            | Some r \<Rightarrow> r \<in> set list \<and> lineNumber (h r) = nal \<and> q \<le> nal \<and>
                        (\<forall>b \<in> set list. q \<le> lineNumber (h b) \<longrightarrow> nal \<le> lineNumber (h b)))"
  using rng
proof (induction list rule: rev_induct)
  case Nil
  show ?case by (simp add: nearestScan_def)
next
  case (snoc x xs)
  obtain nbl nb nal na where acc: "nearestScan h q xs = (nbl, nb, nal, na)"
    by (cases "nearestScan h q xs") auto
  have step: "nearestScan h q (xs @ [x]) = nearestStep h q x (nbl, nb, nal, na)"
    using acc by (simp add: nearestScan_def)
  have ih: "(case nb of
              None \<Rightarrow> nbl = - 1 \<and> (\<forall>b \<in> set xs. \<not> lineNumber (h b) \<le> q)
            | Some r \<Rightarrow> r \<in> set xs \<and> lineNumber (h r) = nbl \<and> nbl \<le> q \<and>
                        (\<forall>b \<in> set xs. lineNumber (h b) \<le> q \<longrightarrow> lineNumber (h b) \<le> nbl)) \<and>
           (case na of
              None \<Rightarrow> nal = MAX_SAFE_INTEGER \<and> (\<forall>b \<in> set xs. \<not> q \<le> lineNumber (h b))
            | Some r \<Rightarrow> r \<in> set xs \<and> lineNumber (h r) = nal \<and> q \<le> nal \<and>
                        (\<forall>b \<in> set xs. q \<le> lineNumber (h b) \<longrightarrow> nal \<le> lineNumber (h b)))"
    using snoc.IH snoc.prems acc by simp
  have x: "0 \<le> lineNumber (h x)" "lineNumber (h x) < MAX_SAFE_INTEGER"
    using snoc.prems by simp_all
  show ?case
    unfolding step using ih x
    by (cases nb; cases na) (auto simp: nearestStep_def)
qed


lemma getTempDocumentBookmarkList_objects [simp]:
  "bookmarkObjects (snd (getTempDocumentBookmarkList p st)) = bookmarkObjects st"
  by (simp add: getTempDocumentBookmarkList_def Let_def split: option.splits)

lemma getNearest_unfold:
  "selections ed = pos # rest \<Longrightarrow>
   fst (getNearestActiveBookmarkInFile ed grp st) =
     nearestChoice (line pos)
       (nearestScan (bookmarkObjects st) (line pos) (nearestCandidates ed grp st))"
  by (simp add: getNearestActiveBookmarkInFile_def nearestCandidates_def
        getTempDocumentBookmarkList_def Let_def split: option.splits prod.splits)


text \<open>
  C5, as stated, fails: with bookmarks on lines 4 and 6 and the cursor on line 5 both
  candidates are one line away, and the query returns the one after the cursor.
\<close>

theorem nearest_tie_counterexample:
  "nearestCandidates tieEditor None tieState = [1, 3] \<and>
   line (hd (selections tieEditor)) - lineNumber (bookmarkObjects tieState 1) = 1 \<and>
   lineNumber (bookmarkObjects tieState 3) - line (hd (selections tieEditor)) = 1 \<and>
   fst (getNearestActiveBookmarkInFile tieEditor None tieState) = Some 3"
  by (simp add: example_defs nearestCandidates_def getTempDocumentBookmarkList_def
        getNearestActiveBookmarkInFile_def nearestScan_def nearestStep_def nearestChoice_def
        MAX_SAFE_INTEGER_def)


text \<open>
  C5, amended: when the editor has a selection and the lines of the candidates are within
  the range of safe integers, the query returns nothing exactly when there is no candidate;
  otherwise it returns a candidate at the smallest absolute line distance from the cursor,
  and among candidates at that distance one on the greatest line, so a tie between the
  closest bookmark before and the closest one after goes to the one after.
\<close>

theorem nearest_in_file:
  assumes sel: "selections ed = pos # rest"
    and rng: "\<forall>b \<in> set (nearestCandidates ed grp st).
                0 \<le> lineNumber (bookmarkObjects st b) \<and>
                lineNumber (bookmarkObjects st b) < MAX_SAFE_INTEGER"
  shows "(fst (getNearestActiveBookmarkInFile ed grp st) = None \<longleftrightarrow>
            nearestCandidates ed grp st = []) \<and>
         (\<forall>r. fst (getNearestActiveBookmarkInFile ed grp st) = Some r \<longrightarrow>
            r \<in> set (nearestCandidates ed grp st) \<and>
            (\<forall>b \<in> set (nearestCandidates ed grp st).
               \<bar>lineNumber (bookmarkObjects st r) - line pos\<bar>
                 \<le> \<bar>lineNumber (bookmarkObjects st b) - line pos\<bar>) \<and>
            (\<forall>b \<in> set (nearestCandidates ed grp st).
               \<bar>lineNumber (bookmarkObjects st b) - line pos\<bar>
                 = \<bar>lineNumber (bookmarkObjects st r) - line pos\<bar> \<longrightarrow>
               lineNumber (bookmarkObjects st b) \<le> lineNumber (bookmarkObjects st r)))"
proof -
  let ?C = "nearestCandidates ed grp st"
  let ?h = "bookmarkObjects st"
  let ?q = "line pos"
  obtain nbl nb nal na where acc: "nearestScan ?h ?q ?C = (nbl, nb, nal, na)"
    by (cases "nearestScan ?h ?q ?C") auto
  have res: "fst (getNearestActiveBookmarkInFile ed grp st) = nearestChoice ?q (nbl, nb, nal, na)"
    using getNearest_unfold [OF sel] acc by simp
  note inv = nearestScan_inv [OF rng, of ?q, unfolded acc, simplified]
  show ?thesis
  proof (cases nb)
    case None
    note nbN = None
    show ?thesis
    proof (cases na)
      case None
      have "?C = []"
      proof (cases ?C)
        case Nil
        then show ?thesis .
      next
        case (Cons c cs)
        then have "c \<in> set ?C" by simp
        then have "\<not> lineNumber (?h c) \<le> ?q" "\<not> ?q \<le> lineNumber (?h c)"
          using inv nbN None by auto
        then show ?thesis by simp
      qed
      then show ?thesis
        using res nbN None by (simp add: nearestChoice_def)
    next
      case (Some a)
      have r: "fst (getNearestActiveBookmarkInFile ed grp st) = Some a"
        using res nbN Some by (simp add: nearestChoice_def)
      have a: "a \<in> set ?C" "lineNumber (?h a) = nal" "?q \<le> nal"
        "\<forall>b \<in> set ?C. ?q \<le> lineNumber (?h b) \<longrightarrow> nal \<le> lineNumber (?h b)"
        "\<forall>b \<in> set ?C. \<not> lineNumber (?h b) \<le> ?q"
        using inv nbN Some by auto
      have "?C \<noteq> []" using a(1) by auto
      moreover have "\<forall>b \<in> set ?C. \<bar>lineNumber (?h a) - ?q\<bar> \<le> \<bar>lineNumber (?h b) - ?q\<bar>"
        using a by fastforce
      moreover have "\<forall>b \<in> set ?C. \<bar>lineNumber (?h b) - ?q\<bar> = \<bar>lineNumber (?h a) - ?q\<bar>
                       \<longrightarrow> lineNumber (?h b) \<le> lineNumber (?h a)"
        using a by fastforce
      ultimately show ?thesis using r a(1) by simp
    qed
  next
    case (Some b0)
    note nbS = Some
    have b0: "b0 \<in> set ?C" "lineNumber (?h b0) = nbl" "nbl \<le> ?q"
      "\<forall>b \<in> set ?C. lineNumber (?h b) \<le> ?q \<longrightarrow> lineNumber (?h b) \<le> nbl"
      using inv nbS by auto
    have ne: "?C \<noteq> []" using b0(1) by auto
    show ?thesis
    proof (cases na)
      case None
      have r: "fst (getNearestActiveBookmarkInFile ed grp st) = Some b0"
        using res nbS None by (simp add: nearestChoice_def)
      have n: "\<forall>b \<in> set ?C. \<not> ?q \<le> lineNumber (?h b)"
        using inv None by auto
      have "\<forall>b \<in> set ?C. \<bar>lineNumber (?h b0) - ?q\<bar> \<le> \<bar>lineNumber (?h b) - ?q\<bar>"
        using b0 n by fastforce
      moreover have "\<forall>b \<in> set ?C. \<bar>lineNumber (?h b) - ?q\<bar> = \<bar>lineNumber (?h b0) - ?q\<bar>
                       \<longrightarrow> lineNumber (?h b) \<le> lineNumber (?h b0)"
        using b0 n by fastforce
      ultimately show ?thesis using r b0(1) ne by simp
    next
      case (Some a)
      have a: "a \<in> set ?C" "lineNumber (?h a) = nal" "?q \<le> nal"
        "\<forall>b \<in> set ?C. ?q \<le> lineNumber (?h b) \<longrightarrow> nal \<le> lineNumber (?h b)"
        using inv Some by auto
      show ?thesis
      proof (cases "?q - nbl < nal - ?q")
        case True
        have r: "fst (getNearestActiveBookmarkInFile ed grp st) = Some b0"
          using res nbS Some True by (simp add: nearestChoice_def)
        have "\<forall>b \<in> set ?C. \<bar>lineNumber (?h b0) - ?q\<bar> \<le> \<bar>lineNumber (?h b) - ?q\<bar>"
        proof
          fix b assume "b \<in> set ?C"
          then show "\<bar>lineNumber (?h b0) - ?q\<bar> \<le> \<bar>lineNumber (?h b) - ?q\<bar>"
            using b0 a True by (cases "lineNumber (?h b) \<le> ?q") force+
        qed
        moreover have "\<forall>b \<in> set ?C. \<bar>lineNumber (?h b) - ?q\<bar> = \<bar>lineNumber (?h b0) - ?q\<bar>
                       \<longrightarrow> lineNumber (?h b) \<le> lineNumber (?h b0)"
        proof
          fix b assume "b \<in> set ?C"
          then show "\<bar>lineNumber (?h b) - ?q\<bar> = \<bar>lineNumber (?h b0) - ?q\<bar>
                       \<longrightarrow> lineNumber (?h b) \<le> lineNumber (?h b0)"
            using b0 a True by (cases "lineNumber (?h b) \<le> ?q") force+
        qed
        ultimately show ?thesis using r b0(1) ne by simp
      next
        case False
        have r: "fst (getNearestActiveBookmarkInFile ed grp st) = Some a"
          using res nbS Some False by (simp add: nearestChoice_def)
        have "\<forall>b \<in> set ?C. \<bar>lineNumber (?h a) - ?q\<bar> \<le> \<bar>lineNumber (?h b) - ?q\<bar>"
        proof
          fix b assume "b \<in> set ?C"
          then show "\<bar>lineNumber (?h a) - ?q\<bar> \<le> \<bar>lineNumber (?h b) - ?q\<bar>"
            using b0 a False by (cases "lineNumber (?h b) \<le> ?q") force+
        qed
        moreover have "\<forall>b \<in> set ?C. \<bar>lineNumber (?h b) - ?q\<bar> = \<bar>lineNumber (?h a) - ?q\<bar>
                       \<longrightarrow> lineNumber (?h b) \<le> lineNumber (?h a)"
        proof
          fix b assume "b \<in> set ?C"
          then show "\<bar>lineNumber (?h b) - ?q\<bar> = \<bar>lineNumber (?h a) - ?q\<bar>
                       \<longrightarrow> lineNumber (?h b) \<le> lineNumber (?h a)"
            using b0 a False by (cases "lineNumber (?h b) \<le> ?q") force+
        qed
        ultimately show ?thesis using r a(1) ne by simp
      qed
    qed
  qed
qed

text \<open>C5, amended, at the bookmarks on lines 4 and 6 with the cursor on line 5.\<close>

theorem nearest_in_file_witness:
  "fst (getNearestActiveBookmarkInFile tieEditor None tieState) \<noteq> None"
proof -
  have sel: "selections tieEditor = \<lparr>line = 5, character = 0\<rparr> # []"
    by (simp add: tieEditor_def)
  have c: "nearestCandidates tieEditor None tieState = [1, 3]"
    by (simp add: example_defs nearestCandidates_def getTempDocumentBookmarkList_def)
  have rng: "\<forall>b \<in> set (nearestCandidates tieEditor None tieState).
               0 \<le> lineNumber (bookmarkObjects tieState b) \<and>
               lineNumber (bookmarkObjects tieState b) < MAX_SAFE_INTEGER"
    unfolding c by (simp add: example_defs MAX_SAFE_INTEGER_def)
  from nearest_in_file [OF sel rng] c show ?thesis by simp
qed

section \<open>Get-or-create and the least used colour\<close>

subsection \<open>Maps in insertion order\<close>

lemma map_get_map_of: "map_get m k = map_of m k"
  by (induction m) auto

lemma map_has_map_of: "map_has m k \<longleftrightarrow> map_of m k \<noteq> None"
  by (induction m) auto

lemma map_set_keys:
  "map fst (map_set m k v) = (if k \<in> set (map fst m) then map fst m else map fst m @ [k])"
  by (induction m) (force split: if_splits)+

lemma map_of_map_set: "map_of (map_set m k v) = (map_of m)(k \<mapsto> v)"
  by (induction m) auto

lemma map_set_vals:
  "\<forall>kv \<in> set m. snd kv = v \<Longrightarrow> kv' \<in> set (map_set m k v) \<Longrightarrow> snd kv' = v"
  by (induction m) (auto split: if_splits)

text \<open>Keys in the order of their first insertion.\<close>

lemma insertion_prefix:
  "\<exists>R. fold (\<lambda>c ks. if c \<in> set ks then ks else ks @ [c]) xs K0 = K0 @ R"
proof (induction xs arbitrary: K0)
  case Nil
  show ?case by simp
next
  case (Cons x xs)
  show ?case
  proof (cases "x \<in> set K0")
    case True
    then show ?thesis using Cons.IH [of K0] by simp
  next
    case False
    obtain R where "fold (\<lambda>c ks. if c \<in> set ks then ks else ks @ [c]) xs (K0 @ [x]) = (K0 @ [x]) @ R"
      using Cons.IH [of "K0 @ [x]"] by blast
    then show ?thesis using False by simp
  qed
qed

lemma insertion_set:
  "set (fold (\<lambda>c ks. if c \<in> set ks then ks else ks @ [c]) xs K0) = set K0 \<union> set xs"
  by (induction xs arbitrary: K0) auto

lemma insertion_distinct:
  "distinct K0 \<Longrightarrow> distinct (fold (\<lambda>c ks. if c \<in> set ks then ks else ks @ [c]) xs K0)"
  by (induction xs arbitrary: K0) auto

lemma insertion_first:
  assumes "c \<notin> set pre"
  shows "\<exists>R. fold (\<lambda>c ks. if c \<in> set ks then ks else ks @ [c]) (pre @ c # post) [] =
              fold (\<lambda>c ks. if c \<in> set ks then ks else ks @ [c]) pre [] @ [c] @ R"
proof -
  let ?ins = "\<lambda>c ks. if c \<in> set ks then ks else ks @ [c]"
  have "c \<notin> set (fold ?ins pre [])"
    using assms by (simp add: insertion_set)
  then have "fold ?ins (pre @ c # post) [] = fold ?ins post (fold ?ins pre [] @ [c])"
    by simp
  moreover obtain R where "fold ?ins post (fold ?ins pre [] @ [c]) = (fold ?ins pre [] @ [c]) @ R"
    using insertion_prefix [of post "fold ?ins pre [] @ [c]"] by blast
  ultimately show ?thesis by simp
qed

subsection \<open>The usage counters\<close>

lemma initUsages_fold_keys:
  "map fst (fold (\<lambda>(index, c) usages. map_set usages c 0) cs m) =
     fold (\<lambda>c ks. if c \<in> set ks then ks else ks @ [c]) (map snd cs) (map fst m)"
proof (induction cs arbitrary: m)
  case Nil
  show ?case by simp
next
  case (Cons x cs)
  obtain i c where x: "x = (i, c)" by (cases x)
  have k: "map fst (map_set m c 0) = (if c \<in> set (map fst m) then map fst m else map fst m @ [c])"
    by (rule map_set_keys)
  have "fold (\<lambda>(index, c) usages. map_set usages c 0) (x # cs) m =
        fold (\<lambda>(index, c) usages. map_set usages c 0) cs (map_set m c 0)"
    by (simp add: x)
  moreover have "fold (\<lambda>c ks. if c \<in> set ks then ks else ks @ [c]) (map snd (x # cs)) (map fst m) =
        fold (\<lambda>c ks. if c \<in> set ks then ks else ks @ [c]) (map snd cs) (map fst (map_set m c 0))"
    unfolding k by (simp add: x)
  ultimately show ?case
    using Cons.IH [of "map_set m c 0"] by (simp only:)
qed

lemma initUsages_fold_vals:
  "\<forall>kv \<in> set m. snd kv = (0::int) \<Longrightarrow>
   kv' \<in> set (fold (\<lambda>(index, c) usages. map_set usages c 0) cs m) \<Longrightarrow> snd kv' = 0"
proof (induction cs arbitrary: m)
  case Nil
  then show ?case by simp
next
  case (Cons x cs)
  obtain i c where x: "x = (i, c)" by (cases x)
  have "\<forall>kv \<in> set (map_set m c 0). snd kv = 0"
    using map_set_vals [OF Cons.prems(1)] by blast
  moreover have "kv' \<in> set (fold (\<lambda>(index, c) usages. map_set usages c 0) cs (map_set m c 0))"
    using Cons.prems(2) by (simp add: x)
  ultimately show ?case by (rule Cons.IH)
qed

lemma initUsages_keys:
  "map fst (initUsages cs) = fold (\<lambda>c ks. if c \<in> set ks then ks else ks @ [c]) (map snd cs) []"
  using initUsages_fold_keys [of cs "[]"] by (simp add: initUsages_def)

lemma initUsages_vals: "kv \<in> set (initUsages cs) \<Longrightarrow> snd kv = 0"
  using initUsages_fold_vals [of "[]" kv cs] by (simp add: initUsages_def)

lemma countUsage_keys: "map fst (countUsage c u) = map fst u"
proof (cases "map_of u c")
  case None
  then show ?thesis by (simp add: countUsage_def map_has_map_of)
next
  case (Some n)
  then have "c \<in> set (map fst u)"
    by (metis map_of_eq_None_iff option.distinct(1) set_map)
  then show ?thesis
    using Some by (simp add: countUsage_def map_has_map_of map_set_keys)
qed

lemma countUsage_map_of:
  "map_of (countUsage c u) k =
     (case map_of u k of None \<Rightarrow> None | Some n \<Rightarrow> Some (if k = c then n + 1 else n))"
proof (cases "map_of u c")
  case None
  then have "countUsage c u = u" by (simp add: countUsage_def map_has_map_of)
  then show ?thesis using None by (cases "map_of u k") auto
next
  case (Some n)
  then have "countUsage c u = map_set u c (n + 1)"
    by (simp add: countUsage_def map_has_map_of map_get_map_of)
  then show ?thesis using Some by (cases "map_of u k") (auto simp: map_of_map_set)
qed

lemma count_fold:
  "map fst (fold (\<lambda>g u. countUsage (col g) u) gs u0) = map fst u0 \<and>
   map_of (fold (\<lambda>g u. countUsage (col g) u) gs u0) k =
     (case map_of u0 k of
        None \<Rightarrow> None
      | Some n \<Rightarrow> Some (n + int (length (filter (\<lambda>g. col g = k) gs))))"
proof (induction gs arbitrary: u0)
  case Nil
  show ?case by (cases "map_of u0 k") simp_all
next
  case (Cons g gs)
  have step: "map_of (countUsage (col g) u0) k =
     (case map_of u0 k of None \<Rightarrow> None | Some n \<Rightarrow> Some (if k = col g then n + 1 else n))"
    by (rule countUsage_map_of)
  show ?case
    using Cons.IH [of "countUsage (col g) u0"] step
    by (cases "map_of u0 k") (simp_all add: countUsage_keys)
qed

text \<open>The scan for the first strict minimum.\<close>

lemma pick_fold:
  fixes us :: "(string \<times> int) list"
  shows "case fold (\<lambda>(key, val) (minUsage, leastUsedColor).
                if minUsage > val then (val, key) else (minUsage, leastUsedColor)) us (m, l) of
     (m', l') \<Rightarrow>
       (\<forall>kv \<in> set us. m' \<le> snd kv) \<and>
       ((m' = m \<and> l' = l \<and> (\<forall>kv \<in> set us. m \<le> snd kv)) \<or>
        (\<exists>i < length us. us ! i = (l', m') \<and> m' < m \<and> (\<forall>j < i. m' < snd (us ! j))))"
proof (induction us arbitrary: m l)
  case Nil
  show ?case by simp
next
  case (Cons x us)
  let ?step = "\<lambda>(key, val) (minUsage, leastUsedColor).
                if minUsage > val then (val, key) else (minUsage, leastUsedColor)"
  obtain k v where x: "x = (k, v)" by (cases x)
  show ?case
  proof (cases "m > v")
    case True
    obtain m' l' where r: "fold ?step us (v, k) = (m', l')" by fastforce
    have ih: "(\<forall>kv \<in> set us. m' \<le> snd kv) \<and>
       ((m' = v \<and> l' = k \<and> (\<forall>kv \<in> set us. v \<le> snd kv)) \<or>
        (\<exists>i < length us. us ! i = (l', m') \<and> m' < v \<and> (\<forall>j < i. m' < snd (us ! j))))"
      using Cons.IH [of v k] r by simp
    have res: "fold ?step (x # us) (m, l) = (m', l')"
      using True x r by simp
    from ih have le: "m' \<le> v" by auto
    from ih consider (stay) "m' = v" "l' = k" "\<forall>kv \<in> set us. v \<le> snd kv"
      | (later) i where "i < length us" "us ! i = (l', m')" "m' < v" "\<forall>j < i. m' < snd (us ! j)"
      by blast
    then have "\<exists>i < length (x # us). (x # us) ! i = (l', m') \<and> m' < m \<and>
                 (\<forall>j < i. m' < snd ((x # us) ! j))"
    proof cases
      case stay
      then show ?thesis using True x by (intro exI [of _ 0]) simp
    next
      case later
      have "\<forall>j < Suc i. m' < snd ((x # us) ! j)"
        using later(3,4) x by (auto simp: nth_Cons split: nat.splits)
      then show ?thesis
        using later True by (intro exI [of _ "Suc i"]) auto
    qed
    then show ?thesis
      unfolding res using ih le x by simp
  next
    case False
    obtain m' l' where r: "fold ?step us (m, l) = (m', l')" by fastforce
    have ih: "(\<forall>kv \<in> set us. m' \<le> snd kv) \<and>
       ((m' = m \<and> l' = l \<and> (\<forall>kv \<in> set us. m \<le> snd kv)) \<or>
        (\<exists>i < length us. us ! i = (l', m') \<and> m' < m \<and> (\<forall>j < i. m' < snd (us ! j))))"
      using Cons.IH [of m l] r by simp
    have res: "fold ?step (x # us) (m, l) = (m', l')"
      using False x r by simp
    from ih consider (stay) "m' = m" "l' = l" "\<forall>kv \<in> set us. m \<le> snd kv"
      | (later) i where "i < length us" "us ! i = (l', m')" "m' < m" "\<forall>j < i. m' < snd (us ! j)"
      by blast
    then show ?thesis
    proof cases
      case stay
      then show ?thesis unfolding res using False x ih by simp
    next
      case later
      have "\<forall>j < Suc i. m' < snd ((x # us) ! j)"
        using later(3,4) x False by (auto simp: nth_Cons split: nat.splits)
      then have "\<exists>i < length (x # us). (x # us) ! i = (l', m') \<and> m' < m \<and>
                 (\<forall>j < i. m' < snd ((x # us) ! j))"
        using later by (intro exI [of _ "Suc i"]) auto
      moreover have "m' \<le> v" using later(3) False x by simp
      ultimately show ?thesis unfolding res using ih x by simp
    qed
  qed
qed

lemma usages_entries:
  fixes st :: Main
  defines "U \<equiv> fold (\<lambda>g u. countUsage (getColor (groupObjects st g)) u) (groups st)
                  (initUsages (colors st))"
  shows "map fst U = fold (\<lambda>c ks. if c \<in> set ks then ks else ks @ [c]) (map snd (colors st)) []"
    and "distinct (map fst U)"
    and "kv \<in> set U \<Longrightarrow> snd kv = usageCount st (fst kv)"
proof -
  let ?K = "fold (\<lambda>c ks. if c \<in> set ks then ks else ks @ [c]) (map snd (colors st)) []"
  let ?U0 = "initUsages (colors st)"
  let ?cnt = "\<lambda>k. int (length (filter (\<lambda>g. getColor (groupObjects st g) = k) (groups st)))"
  have keysU: "map fst U = map fst ?U0"
    unfolding U_def using count_fold [of "\<lambda>g. getColor (groupObjects st g)" "groups st" ?U0]
    by (rule conjunct1)
  have mo: "\<And>k. map_of U k = (case map_of ?U0 k of None \<Rightarrow> None | Some n \<Rightarrow> Some (n + ?cnt k))"
    unfolding U_def using count_fold [of "\<lambda>g. getColor (groupObjects st g)" "groups st" ?U0]
    by (rule conjunct2)
  show keys: "map fst U = ?K"
    unfolding keysU by (rule initUsages_keys)
  show dist: "distinct (map fst U)"
    unfolding keys by (rule insertion_distinct) simp
  have dist0: "distinct (map fst ?U0)"
    using dist unfolding keysU .
  assume kv: "kv \<in> set U"
  obtain k v where e: "kv = (k, v)" by (cases kv)
  have kvU: "(k, v) \<in> set U" using kv e by simp
  have mU: "map_of U k = Some v"
    using kvU dist by simp
  have "fst (k, v) \<in> fst ` set U" using kvU by (rule imageI)
  then have "k \<in> set (map fst U)" by simp
  then have "k \<in> set (map fst ?U0)" unfolding keysU .
  then have "k \<in> fst ` set ?U0" by simp
  then obtain kv0 where kv0: "kv0 \<in> set ?U0" "fst kv0 = k" by auto
  have "snd kv0 = 0" using kv0(1) by (rule initUsages_vals)
  then have "(k, 0) \<in> set ?U0" using kv0 by (cases kv0) simp
  then have "map_of ?U0 k = Some 0"
    using dist0 by simp
  then have "map_of U k = Some (?cnt k)"
    using mo [of k] by simp
  then have "v = ?cnt k" using mU by simp
  then show "snd kv = usageCount st (fst kv)"
    using e by (simp add: usageCount_def)
qed

lemma usageCount_le: "usageCount st c \<le> int (length (groups st))"
  by (simp add: usageCount_def)

lemma getLeastUsedColor_first_minimum:
  assumes ne: "colors st \<noteq> []"
    and small: "int (length (groups st)) < MAX_SAFE_INTEGER"
  shows "\<exists>i < length (colors st).
           snd (colors st ! i) = getLeastUsedColor st \<and>
           (\<forall>j < length (colors st).
              usageCount st (getLeastUsedColor st) \<le> usageCount st (snd (colors st ! j))) \<and>
           (\<forall>j < i. usageCount st (getLeastUsedColor st) < usageCount st (snd (colors st ! j)))"
proof -
  let ?ins = "\<lambda>c ks. if c \<in> set ks then ks else ks @ [c]"
  let ?cs = "map snd (colors st)"
  let ?K = "fold ?ins ?cs []"
  let ?U = "fold (\<lambda>g u. countUsage (getColor (groupObjects st g)) u) (groups st)
              (initUsages (colors st))"
  note keys = usages_entries(1) [of st]
  note dist = usages_entries(2) [of st]
  note vals = usages_entries(3) [of _ st]
  obtain m' l' where pk: "pickLeastUsed ?U = (m', l')" by (cases "pickLeastUsed ?U")
  have len: "\<not> length (colors st) < 1" using ne by (cases "colors st") simp_all
  have res: "getLeastUsedColor st = l'"
    using len pk by (simp add: getLeastUsedColor_def)
  have pf0: "case fold (\<lambda>(key, val) (minUsage, leastUsedColor).
                if minUsage > val then (val, key) else (minUsage, leastUsedColor)) ?U
                (MAX_SAFE_INTEGER, []) of
     (m', l') \<Rightarrow>
       (\<forall>kv \<in> set ?U. m' \<le> snd kv) \<and>
       ((m' = MAX_SAFE_INTEGER \<and> l' = [] \<and> (\<forall>kv \<in> set ?U. MAX_SAFE_INTEGER \<le> snd kv)) \<or>
        (\<exists>i < length ?U. ?U ! i = (l', m') \<and> m' < MAX_SAFE_INTEGER \<and>
            (\<forall>j < i. m' < snd (?U ! j))))"
    by (rule pick_fold)
  have fo: "fold (\<lambda>(key, val) (minUsage, leastUsedColor).
                if minUsage > val then (val, key) else (minUsage, leastUsedColor)) ?U
                (MAX_SAFE_INTEGER, []) = (m', l')"
    using pk by (simp only: pickLeastUsed_def)
  note pf = pf0 [unfolded fo prod.case]
  have lower: "\<And>kv. kv \<in> set ?U \<Longrightarrow> m' \<le> snd kv"
    using pf by blast
  have Kset: "set ?K = set ?cs"
    by (simp add: insertion_set)
  have in_keys: "\<And>c. c \<in> set ?cs \<Longrightarrow> \<exists>v. (c, v) \<in> set ?U"
  proof -
    fix c assume "c \<in> set ?cs"
    then have "c \<in> set (map fst ?U)" unfolding keys Kset .
    then show "\<exists>v. (c, v) \<in> set ?U" by auto
  qed
  obtain c0 where c0: "c0 \<in> set ?cs"
    using ne by (cases "colors st") auto
  obtain v0 where kv0: "(c0, v0) \<in> set ?U"
    using in_keys [OF c0] by blast
  have "snd (c0, v0) = usageCount st (fst (c0, v0))" using kv0 by (rule vals)
  then have "v0 < MAX_SAFE_INTEGER"
    using usageCount_le [of st c0] small by simp
  then have "\<not> (\<forall>kv \<in> set ?U. MAX_SAFE_INTEGER \<le> snd kv)"
    using kv0 by force
  then have "\<exists>i < length ?U. ?U ! i = (l', m') \<and> m' < MAX_SAFE_INTEGER \<and>
            (\<forall>j < i. m' < snd (?U ! j))"
    using pf by blast
  then obtain i' where i': "i' < length ?U" "?U ! i' = (l', m')" "\<forall>j < i'. m' < snd (?U ! j)"
    by blast
  have in_U: "(l', m') \<in> set ?U"
    using nth_mem [OF i'(1)] i'(2) by simp
  have "snd (l', m') = usageCount st (fst (l', m'))" using in_U by (rule vals)
  then have m': "m' = usageCount st l'" by simp
  have i'K: "i' < length ?K"
    using i'(1) keys by (metis length_map)
  have "map fst ?U ! i' = fst (?U ! i')" using i'(1) by (rule nth_map)
  then have Ki': "?K ! i' = l'"
    using i'(2) keys by simp
  have "fst (l', m') \<in> fst ` set ?U" using in_U by (rule imageI)
  then have "l' \<in> set (map fst ?U)" by simp
  then have "l' \<in> set ?cs" unfolding keys Kset .
  then obtain pre post where sp: "?cs = pre @ l' # post" "l' \<notin> set pre"
    using split_list_first [of l' ?cs] by blast
  obtain R where KR: "?K = fold ?ins pre [] @ [l'] @ R"
    using insertion_first [OF sp(2), of post] unfolding sp(1) [symmetric] by blast
  let ?n0 = "length (fold ?ins pre [])"
  have Kn0: "?K ! ?n0 = l'" by (subst KR) (simp add: nth_append)
  have n0K: "?n0 < length ?K" by (subst KR) simp
  have dK: "distinct ?K" using dist unfolding keys .
  have i'n0: "i' = ?n0"
    using nth_eq_iff_index_eq [OF dK i'K n0K] Ki' Kn0 by simp
  have lcs: "length ?cs = length (colors st)" by simp
  have ilen: "length pre < length (colors st)"
    unfolding lcs [symmetric] sp(1) by simp
  have "?cs ! length pre = l'" unfolding sp(1) by simp
  then have at: "snd (colors st ! length pre) = l'"
    using ilen by simp
  have all: "\<forall>j < length (colors st). usageCount st l' \<le> usageCount st (snd (colors st ! j))"
  proof (intro allI impI)
    fix j assume j: "j < length (colors st)"
    then have "snd (colors st ! j) \<in> set ?cs" by simp
    then obtain v where e: "(snd (colors st ! j), v) \<in> set ?U"
      using in_keys by blast
    have "snd (snd (colors st ! j), v) = usageCount st (fst (snd (colors st ! j), v))"
      using e by (rule vals)
    then have "v = usageCount st (snd (colors st ! j))" by simp
    moreover have "m' \<le> v" using lower [OF e] by simp
    ultimately show "usageCount st l' \<le> usageCount st (snd (colors st ! j))"
      using m' by simp
  qed
  have before: "\<forall>j < length pre. usageCount st l' < usageCount st (snd (colors st ! j))"
  proof (intro allI impI)
    fix j assume j: "j < length pre"
    have "?cs ! j = pre ! j" unfolding sp(1) using j by (simp add: nth_append)
    then have cj: "snd (colors st ! j) = pre ! j"
      using j ilen by simp
    have "pre ! j \<in> set (fold ?ins pre [])"
      using j by (simp add: insertion_set)
    then obtain j' where j': "j' < ?n0" "fold ?ins pre [] ! j' = pre ! j"
      unfolding in_set_conv_nth by blast
    have Kj': "?K ! j' = pre ! j"
      by (subst KR) (simp add: nth_append j')
    have j'U: "j' < length ?U" using j'(1) i'n0 i'(1) by simp
    have "map fst ?U ! j' = fst (?U ! j')" using j'U by (rule nth_map)
    then have fj: "fst (?U ! j') = pre ! j"
      using Kj' keys by simp
    have "snd (?U ! j') = usageCount st (fst (?U ! j'))"
      using nth_mem [OF j'U] by (rule vals)
    then have "snd (?U ! j') = usageCount st (pre ! j)" using fj by simp
    moreover have "m' < snd (?U ! j')" using i'(3) j'(1) i'n0 by simp
    ultimately show "usageCount st l' < usageCount st (snd (colors st ! j))"
      using m' cj by simp
  qed
  show ?thesis
    unfolding res
    by (rule exI [of _ "length pre"]) (intro conjI, rule ilen, rule at, rule all, rule before)
qed

lemma set_insort_cmp [simp]: "set (insort_cmp cmp x xs) = insert x (set xs)"
  by (induction xs) auto

lemma set_sort_cmp [simp]: "set (sort_cmp cmp xs) = set xs"
  by (induction xs) (simp_all add: sort_cmp_def)

lemma length_insort_cmp [simp]: "length (insort_cmp cmp x xs) = Suc (length xs)"
  by (induction xs) auto

lemma length_sort_cmp [simp]: "length (sort_cmp cmp xs) = length xs"
  by (induction xs) (simp_all add: sort_cmp_def)

lemma find_unique:
  assumes "r \<in> set xs" and "P r" and "\<And>x. x \<in> set xs \<Longrightarrow> P x \<Longrightarrow> x = r"
  shows "find P xs = Some r"
proof (cases "find P xs")
  case None
  then show ?thesis using find_NoneD [OF None assms(1)] assms(2) by simp
next
  case (Some x)
  then have "x \<in> set xs \<and> P x" by (rule find_SomeD)
  then have "x = r" using assms(3) by blast
  then show ?thesis using Some by simp
qed

lemma ensureGroup_existing:
  "find (\<lambda>g. name (groupObjects st g) = n) (groups st) = Some g \<Longrightarrow> ensureGroup n st = (g, st)"
  by (simp add: ensureGroup_def)

lemma ensureGroup_new:
  assumes "find (\<lambda>g. name (groupObjects st g) = n) (groups st) = None"
  shows "fst (ensureGroup n st) = nextRef st"
    and "set (groups (snd (ensureGroup n st))) = insert (nextRef st) (set (groups st))"
    and "length (groups (snd (ensureGroup n st))) = Suc (length (groups st))"
    and "groupObjects (snd (ensureGroup n st)) =
           (groupObjects st)(nextRef st := new_Group n (getLeastUsedColor st) (defaultShape st) n)"
    and "nextRef (snd (ensureGroup n st)) = Suc (nextRef st)"
    and "colors (snd (ensureGroup n st)) = colors st"
    and "bookmarks (snd (ensureGroup n st)) = bookmarks st"
    and "bookmarkObjects (snd (ensureGroup n st)) = bookmarkObjects st"
  using assms
  by (simp_all add: ensureGroup_def allocGroup_def addNewGroup_def sortGroups_def)

lemma ensureGroup_idempotent:
  assumes fresh: "\<forall>g \<in> set (groups st). g < nextRef st"
  shows "ensureGroup n (snd (ensureGroup n st)) = ensureGroup n st"
proof (cases "find (\<lambda>g. name (groupObjects st g) = n) (groups st)")
  case (Some g)
  then show ?thesis by (simp add: ensureGroup_existing)
next
  case None
  let ?r = "nextRef st"
  let ?st' = "snd (ensureGroup n st)"
  note new = ensureGroup_new [OF None]
  have nr: "?r \<notin> set (groups st)" using fresh by auto
  have "find (\<lambda>g. name (groupObjects ?st' g) = n) (groups ?st') = Some ?r"
  proof (rule find_unique)
    show "?r \<in> set (groups ?st')" unfolding new(2) by simp
    show "name (groupObjects ?st' ?r) = n" unfolding new(4) by (simp add: new_Group_def)
    fix x assume x: "x \<in> set (groups ?st')" and nx: "name (groupObjects ?st' x) = n"
    show "x = ?r"
    proof (rule ccontr)
      assume ne: "x \<noteq> ?r"
      then have "x \<in> set (groups st)" using x unfolding new(2) by simp
      then have "name (groupObjects st x) \<noteq> n" using find_NoneD [OF None] by blast
      then show False using nx ne unfolding new(4) by simp
    qed
  qed
  then have "ensureGroup n ?st' = (?r, ?st')" by (rule ensureGroup_existing)
  then show ?thesis using new(1) by (simp add: prod_eq_iff)
qed

lemma getLeastUsedColor_fallback: "colors st = [] \<Longrightarrow> getLeastUsedColor st = fallbackColor"
  by (simp add: getLeastUsedColor_def)

lemma two_colors_first:
  assumes g: "groups st = []" and c: "colors st = [(ka, A), (kb, B)]"
  shows "getLeastUsedColor st = A"
proof -
  have ne: "colors st \<noteq> []" using c by simp
  have small: "int (length (groups st)) < MAX_SAFE_INTEGER"
    using g by (simp add: MAX_SAFE_INTEGER_def)
  obtain i where i: "i < length (colors st)" "snd (colors st ! i) = getLeastUsedColor st"
    "\<forall>j < i. usageCount st (getLeastUsedColor st) < usageCount st (snd (colors st ! j))"
    using getLeastUsedColor_first_minimum [OF ne small] by blast
  have zero: "\<And>x. usageCount st x = 0" using g by (simp add: usageCount_def)
  have "i = 0"
  proof (rule ccontr)
    assume "i \<noteq> 0"
    then have "0 < i" by simp
    then have "usageCount st (getLeastUsedColor st) < usageCount st (snd (colors st ! 0))"
      using i(3) by blast
    then show False by (simp add: zero)
  qed
  then show ?thesis using i(2) c by simp
qed

lemma two_colors_second:
  assumes g: "groups st = [r]" and c: "colors st = [(ka, A), (kb, B)]" and ab: "A \<noteq> B"
    and col: "color (groupObjects st r) = A"
  shows "getLeastUsedColor st = B"
proof -
  have ne: "colors st \<noteq> []" using c by simp
  have small: "int (length (groups st)) < MAX_SAFE_INTEGER"
    using g by (simp add: MAX_SAFE_INTEGER_def)
  obtain i where i: "i < length (colors st)" "snd (colors st ! i) = getLeastUsedColor st"
    "\<forall>j < length (colors st).
        usageCount st (getLeastUsedColor st) \<le> usageCount st (snd (colors st ! j))"
    using getLeastUsedColor_first_minimum [OF ne small] by blast
  have uA: "usageCount st A = 1" using g col by (simp add: usageCount_def getColor_def)
  have uB: "usageCount st B = 0" using g col ab by (simp add: usageCount_def getColor_def)
  have "1 < length (colors st)" using c by simp
  then have "usageCount st (getLeastUsedColor st) \<le> usageCount st (snd (colors st ! 1))"
    using i(3) by blast
  then have le: "usageCount st (getLeastUsedColor st) \<le> 0" using c uB by simp
  have "i = 0 \<or> i = 1" using i(1) c by auto
  then have "getLeastUsedColor st = A \<or> getLeastUsedColor st = B"
    using i(2) c by auto
  then show ?thesis using le uA by auto
qed


text \<open>
  C7: in a state whose groups were all created before \<open>nextRef\<close> and are fewer than the
  largest safe integer, \<open>ensureGroup\<close> returns the group of that name when there is one and
  leaves the state as it is; calling it again on its own result changes nothing; when no
  group has the name, a new group of that name joins the registry, and its colour is
  \<open>getLeastUsedColor\<close>.  That colour is the fallback colour when no colour is configured,
  and otherwise a configured colour whose usage count over the existing groups is minimal
  and strictly smaller than the count of every colour configured before it.  With no group
  and two different configured colours, the first creation takes the first colour and the
  next creation the second.
\<close>

theorem ensureGroup_least_used_color:
  assumes fresh: "\<forall>g \<in> set (groups st). g < nextRef st"
    and small: "int (length (groups st)) < MAX_SAFE_INTEGER"
  shows
    "((\<exists>g \<in> set (groups st). name (groupObjects st g) = n) \<longrightarrow>
        snd (ensureGroup n st) = st \<and>
        find (\<lambda>g. name (groupObjects st g) = n) (groups st) = Some (fst (ensureGroup n st)) \<and>
        fst (ensureGroup n st) \<in> set (groups st) \<and>
        name (groupObjects st (fst (ensureGroup n st))) = n) \<and>
     ensureGroup n (snd (ensureGroup n st)) = ensureGroup n st \<and>
     ((\<forall>g \<in> set (groups st). name (groupObjects st g) \<noteq> n) \<longrightarrow>
        fst (ensureGroup n st) \<notin> set (groups st) \<and>
        set (groups (snd (ensureGroup n st))) = insert (fst (ensureGroup n st)) (set (groups st)) \<and>
        name (groupObjects (snd (ensureGroup n st)) (fst (ensureGroup n st))) = n \<and>
        color (groupObjects (snd (ensureGroup n st)) (fst (ensureGroup n st)))
          = getLeastUsedColor st) \<and>
     (colors st = [] \<longrightarrow> getLeastUsedColor st = fallbackColor) \<and>
     (colors st \<noteq> [] \<longrightarrow>
        (\<exists>i < length (colors st).
           snd (colors st ! i) = getLeastUsedColor st \<and>
           (\<forall>j < length (colors st).
              usageCount st (getLeastUsedColor st) \<le> usageCount st (snd (colors st ! j))) \<and>
           (\<forall>j < i. usageCount st (getLeastUsedColor st)
                      < usageCount st (snd (colors st ! j))))) \<and>
     (groups st = [] \<and> colors st = [(ka, A), (kb, B)] \<and> A \<noteq> B \<and> n \<noteq> n' \<longrightarrow>
        color (groupObjects (snd (ensureGroup n st)) (fst (ensureGroup n st))) = A \<and>
        color (groupObjects (snd (ensureGroup n' (snd (ensureGroup n st))))
                 (fst (ensureGroup n' (snd (ensureGroup n st))))) = B)"
proof -
  let ?P = "\<lambda>g. name (groupObjects st g) = n"
  have existing: "(\<exists>g \<in> set (groups st). ?P g) \<longrightarrow>
        snd (ensureGroup n st) = st \<and>
        find ?P (groups st) = Some (fst (ensureGroup n st)) \<and>
        fst (ensureGroup n st) \<in> set (groups st) \<and>
        name (groupObjects st (fst (ensureGroup n st))) = n"
  proof
    assume "\<exists>g \<in> set (groups st). ?P g"
    then obtain g0 where g0: "g0 \<in> set (groups st)" "?P g0" by blast
    have "find ?P (groups st) \<noteq> None"
      using g0 by (rule find_not_None)
    then obtain g where f: "find ?P (groups st) = Some g" by blast
    have e: "ensureGroup n st = (g, st)" using f by (rule ensureGroup_existing)
    have "g \<in> set (groups st) \<and> ?P g" using f by (rule find_SomeD)
    then show "snd (ensureGroup n st) = st \<and>
        find ?P (groups st) = Some (fst (ensureGroup n st)) \<and>
        fst (ensureGroup n st) \<in> set (groups st) \<and>
        name (groupObjects st (fst (ensureGroup n st))) = n"
      using f by (simp add: e)
  qed
  have idem: "ensureGroup n (snd (ensureGroup n st)) = ensureGroup n st"
    using fresh by (rule ensureGroup_idempotent)
  have created: "(\<forall>g \<in> set (groups st). \<not> ?P g) \<longrightarrow>
        fst (ensureGroup n st) \<notin> set (groups st) \<and>
        set (groups (snd (ensureGroup n st))) = insert (fst (ensureGroup n st)) (set (groups st)) \<and>
        name (groupObjects (snd (ensureGroup n st)) (fst (ensureGroup n st))) = n \<and>
        color (groupObjects (snd (ensureGroup n st)) (fst (ensureGroup n st)))
          = getLeastUsedColor st"
  proof
    assume a: "\<forall>g \<in> set (groups st). \<not> ?P g"
    have none: "find ?P (groups st) = None"
      using a by (intro find_NoneI) blast
    note new = ensureGroup_new [OF none]
    have "nextRef st \<notin> set (groups st)" using fresh by auto
    then show "fst (ensureGroup n st) \<notin> set (groups st) \<and>
        set (groups (snd (ensureGroup n st))) = insert (fst (ensureGroup n st)) (set (groups st)) \<and>
        name (groupObjects (snd (ensureGroup n st)) (fst (ensureGroup n st))) = n \<and>
        color (groupObjects (snd (ensureGroup n st)) (fst (ensureGroup n st)))
          = getLeastUsedColor st"
      unfolding new(1) new(2) new(4) by (simp add: new_Group_def)
  qed
  have fb: "colors st = [] \<longrightarrow> getLeastUsedColor st = fallbackColor"
    using getLeastUsedColor_fallback by blast
  have least: "colors st \<noteq> [] \<longrightarrow>
        (\<exists>i < length (colors st).
           snd (colors st ! i) = getLeastUsedColor st \<and>
           (\<forall>j < length (colors st).
              usageCount st (getLeastUsedColor st) \<le> usageCount st (snd (colors st ! j))) \<and>
           (\<forall>j < i. usageCount st (getLeastUsedColor st)
                      < usageCount st (snd (colors st ! j))))"
  proof
    assume "colors st \<noteq> []"
    then show "\<exists>i < length (colors st).
           snd (colors st ! i) = getLeastUsedColor st \<and>
           (\<forall>j < length (colors st).
              usageCount st (getLeastUsedColor st) \<le> usageCount st (snd (colors st ! j))) \<and>
           (\<forall>j < i. usageCount st (getLeastUsedColor st)
                      < usageCount st (snd (colors st ! j)))"
      using small by (rule getLeastUsedColor_first_minimum)
  qed
  have two: "groups st = [] \<and> colors st = [(ka, A), (kb, B)] \<and> A \<noteq> B \<and> n \<noteq> n' \<longrightarrow>
        color (groupObjects (snd (ensureGroup n st)) (fst (ensureGroup n st))) = A \<and>
        color (groupObjects (snd (ensureGroup n' (snd (ensureGroup n st))))
                 (fst (ensureGroup n' (snd (ensureGroup n st))))) = B"
  proof (intro impI, elim conjE)
    assume g: "groups st = []" and c: "colors st = [(ka, A), (kb, B)]" and ab: "A \<noteq> B"
      and nn: "n \<noteq> n'"
    let ?st1 = "snd (ensureGroup n st)"
    let ?r = "nextRef st"
    have none: "find ?P (groups st) = None" using g by simp
    note new = ensureGroup_new [OF none]
    have cA: "getLeastUsedColor st = A" using g c by (rule two_colors_first)
    have first: "color (groupObjects ?st1 (fst (ensureGroup n st))) = A"
      unfolding new(1) new(4) using cA by (simp add: new_Group_def)
    have "set (groups ?st1) = {?r}" unfolding new(2) using g by simp
    moreover have "length (groups ?st1) = 1" unfolding new(3) using g by simp
    ultimately have g1: "groups ?st1 = [?r]"
      by (cases "groups ?st1") auto
    have c1: "colors ?st1 = [(ka, A), (kb, B)]" unfolding new(6) by (rule c)
    have col1: "color (groupObjects ?st1 ?r) = A"
      unfolding new(4) using cA by (simp add: new_Group_def)
    have name1: "name (groupObjects ?st1 ?r) = n"
      unfolding new(4) by (simp add: new_Group_def)
    have cB: "getLeastUsedColor ?st1 = B"
      using g1 c1 ab col1 by (rule two_colors_second)
    have none1: "find (\<lambda>g. name (groupObjects ?st1 g) = n') (groups ?st1) = None"
      unfolding g1 using name1 nn by simp
    note new1 = ensureGroup_new [OF none1]
    have second: "color (groupObjects (snd (ensureGroup n' ?st1)) (fst (ensureGroup n' ?st1))) = B"
      unfolding new1(1) new1(4) using cB by (simp add: new_Group_def)
    show "color (groupObjects ?st1 (fst (ensureGroup n st))) = A \<and>
          color (groupObjects (snd (ensureGroup n' ?st1)) (fst (ensureGroup n' ?st1))) = B"
      using first second by (rule conjI)
  qed
  show ?thesis
    by (intro conjI) (rule existing, rule idem, rule created, rule fb, rule least, rule two)
qed

text \<open>C7, at the state with no group and the colours red and blue configured in that order.\<close>

theorem ensureGroup_least_used_color_witness:
  "color (groupObjects (snd (ensureGroup ''alpha'' twoColors))
            (fst (ensureGroup ''alpha'' twoColors))) = ''ff0000ff'' \<and>
   color (groupObjects (snd (ensureGroup ''beta'' (snd (ensureGroup ''alpha'' twoColors))))
            (fst (ensureGroup ''beta'' (snd (ensureGroup ''alpha'' twoColors))))) = ''0000ffff''"
proof -
  have fresh: "\<forall>g \<in> set (groups twoColors). g < nextRef twoColors"
    by (simp add: twoColors_def emptyState_def)
  have small: "int (length (groups twoColors)) < MAX_SAFE_INTEGER"
    by (simp add: twoColors_def emptyState_def MAX_SAFE_INTEGER_def)
  have pre: "groups twoColors = [] \<and>
             colors twoColors = [(''red'', ''ff0000ff''), (''blue'', ''0000ffff'')] \<and>
             ''ff0000ff'' \<noteq> ''0000ffff'' \<and> ''alpha'' \<noteq> ''beta''"
    by (simp add: twoColors_def emptyState_def)
  note t = ensureGroup_least_used_color [OF fresh small, of "''alpha''" "''red''" "''ff0000ff''"
      "''blue''" "''0000ffff''" "''beta''"]
  show ?thesis
    by (rule mp [OF t [THEN conjunct2, THEN conjunct2, THEN conjunct2, THEN conjunct2,
                       THEN conjunct2] pre])
qed


section \<open>The empty state and the cleanup of the storage artifact\<close>

lemma isEmpty_iff:
  "isEmpty st \<longleftrightarrow>
     bookmarks st = [] \<and> (\<exists>g. groups st = [g] \<and> name (groupObjects st g) = defaultGroupName st)"
proof (cases "groups st")
  case Nil
  then show ?thesis by (simp add: isEmpty_def)
next
  case (Cons g gs)
  then show ?thesis by (cases gs) (auto simp: isEmpty_def)
qed

lemma saveState_empty:
  assumes e: "isEmpty st" and w: "workspaceFolder st = Some folder"
  shows "fst (saveState st) = False"
    and "storage (snd (saveState st)) = deleteArtifact (storage st)"
    and "lastSaveTimestamp (snd (saveState st)) = lastSaveTimestamp st"
    and "bookmarks (snd (saveState st)) = bookmarks st"
    and "groups (snd (saveState st)) = groups st"
proof -
  have p: "savedBookmarksFilePath st \<noteq> None"
    using w by (simp add: savedBookmarksFilePath_def)
  have e1: "\<And>m. isEmpty (st\<lparr>workspaceState := m\<rparr>)"
    using e by (simp add: isEmpty_def)
  show "fst (saveState st) = False"
    and "storage (snd (saveState st)) = deleteArtifact (storage st)"
    and "lastSaveTimestamp (snd (saveState st)) = lastSaveTimestamp st"
    and "bookmarks (snd (saveState st)) = bookmarks st"
    and "groups (snd (saveState st)) = groups st"
    using p e1 by (auto simp: saveState_def Let_def)
qed

lemma deleteArtifact_fields:
  "artifact (deleteArtifact fs) = None"
  "dirExists (deleteArtifact fs) \<longleftrightarrow>
     dirExists fs \<and> \<not> (artifact fs \<noteq> None \<and> dirOtherEntries fs = 0)"
  by (auto simp: deleteArtifact_def Let_def)


text \<open>
  C6, as stated, fails: a state whose only group bears the default name is empty for
  \<open>isEmpty\<close> whatever the colour, shape and icon text of that group.
\<close>

theorem isEmpty_customized_counterexample:
  "isEmpty customizedDefault \<and>
   color (groupObjects customizedDefault 10) \<noteq> fallbackColor \<and>
   shape (groupObjects customizedDefault 10) \<noteq> defaultShape customizedDefault \<and>
   iconText (groupObjects customizedDefault 10) \<noteq> []"
  by (simp add: isEmpty_def customizedDefault_def emptyState_def new_Group_def fallbackColor_def)


text \<open>
  C6, amended: \<open>isEmpty\<close> holds exactly when there is no bookmark and exactly one group,
  whose name is the default group name; and in every such state with a workspace folder,
  \<open>saveState\<close> writes nothing: it returns false, the artifact is gone afterwards, the
  directory is removed exactly when the artifact existed and was its only entry, and the
  time of the last save is not touched.
\<close>

theorem isEmpty_and_cleanup:
  "(isEmpty st \<longleftrightarrow>
      bookmarks st = [] \<and>
      (\<exists>g. groups st = [g] \<and> name (groupObjects st g) = defaultGroupName st)) \<and>
   (isEmpty st \<and> workspaceFolder st \<noteq> None \<longrightarrow>
      fst (saveState st) = False \<and>
      artifact (storage (snd (saveState st))) = None \<and>
      (dirExists (storage (snd (saveState st))) \<longleftrightarrow>
         dirExists (storage st) \<and>
         \<not> (artifact (storage st) \<noteq> None \<and> dirOtherEntries (storage st) = 0)) \<and>
      lastSaveTimestamp (snd (saveState st)) = lastSaveTimestamp st)"
proof (intro conjI impI)
  show "isEmpty st \<longleftrightarrow>
      bookmarks st = [] \<and>
      (\<exists>g. groups st = [g] \<and> name (groupObjects st g) = defaultGroupName st)"
    by (rule isEmpty_iff)
next
  assume a: "isEmpty st \<and> workspaceFolder st \<noteq> None"
  then obtain folder where w: "workspaceFolder st = Some folder" by blast
  from a have e: "isEmpty st" by simp
  note s = saveState_empty [OF e w]
  show "fst (saveState st) = False" by (rule s(1))
  show "artifact (storage (snd (saveState st))) = None"
    unfolding s(2) by (rule deleteArtifact_fields(1))
  show "dirExists (storage (snd (saveState st))) \<longleftrightarrow>
         dirExists (storage st) \<and>
         \<not> (artifact (storage st) \<noteq> None \<and> dirOtherEntries (storage st) = 0)"
    unfolding s(2) by (rule deleteArtifact_fields(2))
  show "lastSaveTimestamp (snd (saveState st)) = lastSaveTimestamp st" by (rule s(3))
qed

text \<open>
  C6, amended, at the customised default group: the artifact and its directory are gone.
\<close>

theorem isEmpty_and_cleanup_witness:
  "fst (saveState customizedDefault) = False \<and>
   artifact (storage (snd (saveState customizedDefault))) = None \<and>
   \<not> dirExists (storage (snd (saveState customizedDefault)))"
proof -
  have pre: "isEmpty customizedDefault \<and> workspaceFolder customizedDefault \<noteq> None"
    by (simp add: isEmpty_def customizedDefault_def emptyState_def new_Group_def)
  have fs: "artifact (storage customizedDefault) \<noteq> None"
    "dirOtherEntries (storage customizedDefault) = 0"
    by (simp_all add: customizedDefault_def emptyState_def)
  note t = mp [OF isEmpty_and_cleanup [of customizedDefault, THEN conjunct2] pre]
  show ?thesis
    using t fs by simp
qed


section \<open>Edit reconciliation\<close>
























subsection \<open>The deletion branch\<close>

















section \<open>Saving and then loading\<close>

lemma fold_setIsVisible_fields:
  "bookmarks (fold (\<lambda>g s. setIsVisible g (v s g) s) gs st) = bookmarks st"
  "messages (fold (\<lambda>g s. setIsVisible g (v s g) s) gs st) = messages st"
  by (induction gs arbitrary: st) (simp_all add: setIsVisible_def)

lemma setGroupVisibilities_fields:
  "bookmarks (setGroupVisibilities st) = bookmarks st"
  "messages (setGroupVisibilities st) = messages st"
  unfolding setGroupVisibilities_def by (rule fold_setIsVisible_fields)+

lemma ensureGroup_keeps:
  "bookmarks (snd (ensureGroup n st)) = bookmarks st"
  "messages (snd (ensureGroup n st)) = messages st"
  by (simp_all add: ensureGroup_def allocGroup_def addNewGroup_def sortGroups_def
        split: option.splits)

lemma activateGroup_keeps:
  "bookmarks (activateGroup n st) = bookmarks st"
  "messages (activateGroup n st) = messages st"
proof -
  obtain g st1 where e: "ensureGroup n st = (g, st1)"
    by (cases "ensureGroup n st")
  have k: "bookmarks st1 = bookmarks st" "messages st1 = messages st"
    using ensureGroup_keeps [of n st] by (simp_all add: e)
  show "bookmarks (activateGroup n st) = bookmarks st"
    by (simp add: activateGroup_def e setGroupVisibilities_fields setIsActive_def k)
  show "messages (activateGroup n st) = messages st"
    by (simp add: activateGroup_def e setGroupVisibilities_fields setIsActive_def k)
qed

text \<open>The first bookmark to restore throws, whatever it is.\<close>

lemma restoreBookmark_throws: "restoreBookmark sb st = (Some TypeError, st)"
  by (simp add: restoreBookmark_def fromSerializableBookMark_def decorationFactory_def
        js_call_def Let_def)

lemma forEach_restoreBookmark:
  "forEach restoreBookmark (sb # sbs) st = (Some TypeError, st)"
  by (simp add: restoreBookmark_throws)

lemma fold_restoreGroup_fields:
  "bookmarks (fold restoreGroup sgs st) = bookmarks st"
  "messages (fold restoreGroup sgs st) = messages st"
  "workspaceState (fold restoreGroup sgs st) = workspaceState st"
  by (induction sgs arbitrary: st)
     (simp_all add: restoreGroup_def allocGroup_def addNewGroup_def)

lemma restoreState_throws:
  assumes "mementoBookmarks (workspaceState st) = Some (sb # sbs)"
  shows "bookmarks (restoreState st) = []"
    and "messages (restoreState st) = messages st @ [''LOAD Restoring bookmarks failed (TypeError)'']"
  using assms
  by (simp_all add: restoreState_def Let_def activateGroup_keeps resetTempLists_def
        restoreBookmark_throws showErrorMessage_def sortGroups_def fold_restoreGroup_fields
        split: option.splits)

lemma saveState_writes:
  assumes "workspaceFolder st = Some folder" and "bookmarks st \<noteq> []"
  shows "fst (saveState st)"
    and "artifact (storage (snd (saveState st))) = Some (Json (savedObject st))"
    and "workspaceFolder (snd (saveState st)) = Some folder"
    and "messages (snd (saveState st)) = messages st"
  using assms
  by (simp_all add: saveState_def savedBookmarksFilePath_def isEmpty_def Let_def savedObject_def
        serializedBookmarks_def serializedGroups_def)

lemma saveThenLoad_throws:
  assumes wf: "workspaceFolder st = Some folder" and ne: "bookmarks st \<noteq> []"
  shows "\<exists>st2. saveThenLoad st = Inr (True, st2) \<and> bookmarks st2 = [] \<and>
           messages st2 = messages st @ [''LOAD Restoring bookmarks failed (TypeError)'']"
proof -
  let ?st1 = "snd (saveState st)"
  let ?m = "\<lparr>mementoBookmarks = savedBookmarks (savedObject st),
            mementoGroups = savedGroups (savedObject st),
            mementoActiveGroup = savedActiveGroup (savedObject st),
            mementoHideInactiveGroups = savedHideInactiveGroups (savedObject st),
            mementoHideAll = savedHideAll (savedObject st)\<rparr>"
  let ?st2 = "?st1\<lparr>workspaceState := ?m\<rparr>"
  note w = saveState_writes [OF wf ne]
  have p: "savedBookmarksFilePath ?st1 \<noteq> None"
    by (simp add: savedBookmarksFilePath_def w(3))
  have l: "loadState ?st1 = Inr (True, restoreState ?st2)"
    using p by (auto simp: loadState_def w(2) savedObject_def)
  obtain b bs where bb: "bookmarks st = b # bs"
    using ne by (cases "bookmarks st") simp_all
  have mb: "mementoBookmarks (workspaceState ?st2) =
      Some (fromBookmark (workspaceFolder st) (groupObjects st) (bookmarkObjects st b)
            # map (\<lambda>b. fromBookmark (workspaceFolder st) (groupObjects st) (bookmarkObjects st b)) bs)"
    by (simp add: savedObject_def serializedBookmarks_def bb)
  note r = restoreState_throws [OF mb]
  have "messages ?st2 = messages st"
    by (simp add: w(4))
  then show ?thesis
    unfolding saveThenLoad_def l using r by simp
qed

text \<open>
  C1: saving and then loading does not give the bookmarks back. For every state with an
  open workspace folder and at least one bookmark, \<open>saveState\<close> writes the artifact and
  returns true, and the \<open>loadState\<close> that follows returns true with an empty bookmark
  array and one more message, that restoring the bookmarks failed with a \<open>TypeError\<close>:
  \<open>loadState\<close> passes the decoration factory where
  \<open>Bookmark.fromSerializableBookMark\<close> expects the group getter, so that the call of the
  getter throws at the first bookmark.
\<close>

theorem save_then_load_loses_bookmarks:
  "workspaceFolder st \<noteq> None \<and> bookmarks st \<noteq> [] \<longrightarrow>
     fst (saveState st) \<and>
     (case saveThenLoad st of
        Inl e \<Rightarrow> False
      | Inr (loaded, st2) \<Rightarrow>
          loaded \<and> bookmarks st2 = [] \<and>
          messages st2 = messages st @ [''LOAD Restoring bookmarks failed (TypeError)''])"
proof (rule impI)
  assume h: "workspaceFolder st \<noteq> None \<and> bookmarks st \<noteq> []"
  then obtain folder where wf: "workspaceFolder st = Some folder" by auto
  from h have ne: "bookmarks st \<noteq> []" by (rule conjunct2)
  obtain st2 where l: "saveThenLoad st = Inr (True, st2)" and b: "bookmarks st2 = []"
    and m: "messages st2 = messages st @ [''LOAD Restoring bookmarks failed (TypeError)'']"
    using saveThenLoad_throws [OF wf ne] by blast
  have s: "fst (saveState st)"
    using wf ne by (rule saveState_writes(1))
  show "fst (saveState st) \<and>
     (case saveThenLoad st of
        Inl e \<Rightarrow> False
      | Inr (loaded, st2) \<Rightarrow>
          loaded \<and> bookmarks st2 = [] \<and>
          messages st2 = messages st @ [''LOAD Restoring bookmarks failed (TypeError)''])"
    unfolding l using s b m by simp
qed

text \<open>
  C1, at the three bookmarks of \<open>/w/a.ts\<close> with the workspace folder \<open>/w\<close>: after save
  and load no bookmark is left.
\<close>

theorem save_then_load_loses_bookmarks_witness:
  "fst (saveState (threeBookmarks\<lparr>workspaceFolder := Some ''/w''\<rparr>)) \<and>
   (case saveThenLoad (threeBookmarks\<lparr>workspaceFolder := Some ''/w''\<rparr>) of
      Inl e \<Rightarrow> False
    | Inr (loaded, st2) \<Rightarrow>
        loaded \<and> bookmarks st2 = [] \<and>
        messages st2 = [''LOAD Restoring bookmarks failed (TypeError)''])"
proof -
  have h: "workspaceFolder (threeBookmarks\<lparr>workspaceFolder := Some ''/w''\<rparr>) \<noteq> None \<and>
           bookmarks (threeBookmarks\<lparr>workspaceFolder := Some ''/w''\<rparr>) \<noteq> []"
    by (simp add: example_defs)
  have m: "messages (threeBookmarks\<lparr>workspaceFolder := Some ''/w''\<rparr>) = []"
    by (simp add: example_defs)
  note t = mp [OF save_then_load_loses_bookmarks h]
  show ?thesis
    using t unfolding m append_Nil .
qed

section \<open>The canonical order and the renaming of files\<close>

lemma saveState_keeps:
  "bookmarks (snd (saveState st)) = bookmarks st"
  "bookmarkObjects (snd (saveState st)) = bookmarkObjects st"
  "nextRef (snd (saveState st)) = nextRef st"
  "localeCompare (snd (saveState st)) = localeCompare st"
  by (simp_all add: saveState_def Let_def split: option.splits)

lemma twoFiles_renamed:
  "bookmarks (onFilesRenamed [renameX] (twoFiles cmp)) = [2, 3]"
  "fsPath (bookmarkObjects (onFilesRenamed [renameX] (twoFiles cmp)) 2) = ''/w/c/x.ts''"
  "fsPath (bookmarkObjects (onFilesRenamed [renameX] (twoFiles cmp)) 3) = ''/w/b/y.ts''"
  "localeCompare (onFilesRenamed [renameX] (twoFiles cmp)) = cmp"
  by (simp_all add: onFilesRenamed_def renameStep_def renameX_def twoFiles_def emptyState_def
        new_Bookmark_def Let_def saveState_keeps)

text \<open>
  C9: the bookmark array does not stay in the canonical order under every operation.  With
  a bookmark in \<open>/w/a/x.ts\<close> and one in \<open>/w/b/y.ts\<close>, for every collation of the host
  that puts \<open>/w/a/x.ts\<close> before \<open>/w/b/y.ts\<close> and \<open>/w/c/x.ts\<close> after it, the array is in
  the order of \<open>sortByLocation\<close>, and after \<open>onFilesRenamed\<close> for the renaming of
  \<open>/w/a/x.ts\<close> into \<open>/w/c/x.ts\<close> it is not: the handler rewrites the paths of the
  bookmarks in place and does not sort the array.
\<close>

theorem rename_breaks_sorting:
  "cmp ''/w/a/x.ts'' ''/w/b/y.ts'' < 0 \<and> cmp ''/w/c/x.ts'' ''/w/b/y.ts'' > 0 \<longrightarrow>
     isSortedByLocation (twoFiles cmp) \<and>
     \<not> isSortedByLocation (onFilesRenamed [renameX] (twoFiles cmp))"
proof (intro impI conjI)
  assume a: "cmp ''/w/a/x.ts'' ''/w/b/y.ts'' < 0 \<and> cmp ''/w/c/x.ts'' ''/w/b/y.ts'' > 0"
  show "isSortedByLocation (twoFiles cmp)"
    using a by (simp add: isSortedByLocation_def twoFiles_def emptyState_def new_Bookmark_def
        sortByLocation_def)
  have "sortByLocation cmp (bookmarkObjects (onFilesRenamed [renameX] (twoFiles cmp)) 2)
          (bookmarkObjects (onFilesRenamed [renameX] (twoFiles cmp)) 3) > 0"
    using a by (simp add: sortByLocation_def twoFiles_renamed)
  then show "\<not> isSortedByLocation (onFilesRenamed [renameX] (twoFiles cmp))"
    by (simp add: isSortedByLocation_def twoFiles_renamed)
qed

text \<open>C9, under the comparison by code units.\<close>

theorem rename_breaks_sorting_witness:
  "isSortedByLocation (twoFiles codeUnitCompare) \<and>
   \<not> isSortedByLocation (onFilesRenamed [renameX] (twoFiles codeUnitCompare))"
proof -
  have h: "codeUnitCompare ''/w/a/x.ts'' ''/w/b/y.ts'' < 0 \<and>
           codeUnitCompare ''/w/c/x.ts'' ''/w/b/y.ts'' > 0"
    by simp
  show ?thesis
    using rename_breaks_sorting [of codeUnitCompare] h by (rule mp)
qed

section \<open>The failed-jump flag\<close>
























lemma setIsActive_keepsFlag: "keepsFlag r st (setIsActive g v st)"
  by (simp add: keepsFlag_def setIsActive_def)















end
